theory Spec2Isabelle
  imports Complex_Main "HOL-Library.AList" "HOL-Library.Word"
begin

section \<open>Sparse tensor components with index symmetries (comp.py)\<close>

text \<open>
  The development embeds the classes \<^verbatim>\<open>Components\<close>, \<^verbatim>\<open>CompWithSym\<close>,
  \<^verbatim>\<open>CompFullySym\<close>, \<^verbatim>\<open>CompFullyAntiSym\<close> and \<^verbatim>\<open>KroneckerDelta\<close> of
  \<^verbatim>\<open>sage/geometry/manifolds/comp.py\<close>. The coefficient ring is the type parameter
  \<open>'a\<close>; \<^verbatim>\<open>self.ring(value)\<close> is the identity on ring elements. Component
  access is the raw access \<^verbatim>\<open>c[[i,j,...]]\<close> (no output formatter applied), which is the
  one all arithmetic of the module uses.
\<close>

subsection \<open>Data model\<close>

text \<open>The Python class of an object: it decides which method a call dispatches to.\<close>

datatype pyclass = Components | CompWithSym | CompFullySym | CompFullyAntiSym | KroneckerDelta

text \<open>
  Exceptions, as values. The comment gives the Python exception and the place that
  raises it.
\<close>

datatype error =
    WrongNumberOfIndices    \<comment> \<open>TypeError, \<^verbatim>\<open>_check_indices\<close>\<close>
  | IndexOutOfRange         \<comment> \<open>IndexError, \<^verbatim>\<open>_check_indices\<close>\<close>
  | AntisymmetryConflict    \<comment> \<open>ValueError, \<^verbatim>\<open>CompWithSym.__setitem__\<close>\<close>
  | Frozen                  \<comment> \<open>NotImplementedError, \<^verbatim>\<open>KroneckerDelta.__setitem__\<close>\<close>
  | InvalidSymmetrySpec     \<comment> \<open>IndexError, \<^verbatim>\<open>CompWithSym.__init__\<close>\<close>
  | IncompatibleOperands    \<comment> \<open>TypeError, frame, nid or start index of two operands differ\<close>
  | CannotCompareToNumber   \<comment> \<open>TypeError, \<^verbatim>\<open>__eq__\<close> with a nonzero integer\<close>
  | NotComponents           \<comment> \<open>TypeError, operand that is no instance of Components\<close>
  | MissingArgument         \<comment> \<open>TypeError, a call with too few positional arguments\<close>
  | BadArgument             \<comment> \<open>TypeError, \<^verbatim>\<open>len\<close> of an argument that has no length\<close>
  | AttributeError string   \<comment> \<open>AttributeError, read of an attribute the object lacks\<close>
  | EmptyListAssignment     \<comment> \<open>IndexError, \<^verbatim>\<open>ind_end[0] = ...\<close> on an empty list\<close>
  | ContractionTooFewIndices \<comment> \<open>TypeError, \<^verbatim>\<open>self_contract\<close> with nid < 2\<close>
  | PositionOutOfRange      \<comment> \<open>IndexError, \<^verbatim>\<open>self_contract\<close> positions\<close>
  | BadPositionCount        \<comment> \<open>TypeError, \<^verbatim>\<open>symmetrize\<close> with fewer than 2 or more than nid positions\<close>
  | ZeroDivisionError       \<comment> \<open>ZeroDivisionError, division by a zero of the ring\<close>
  | NoneKey                 \<comment> \<open>use of the key \<^verbatim>\<open>None\<close> by a class that ignores the sign\<close>
  | Nontermination          \<comment> \<open>a loop that does not return\<close>

type_synonym frame = "string list"

text \<open>
  The dictionary \<^verbatim>\<open>_comp\<close>: an association list from index tuples to ring elements,
  iterated in list order. \<^verbatim>\<open>d[k] = v\<close> is \<^const>\<open>AList.update\<close>, \<^verbatim>\<open>del d[k]\<close> is
  \<^const>\<open>AList.delete\<close>, \<^verbatim>\<open>k in d\<close> is \<open>map_of d k \<noteq> None\<close>.
\<close>

type_synonym 'a dict = "(int list \<times> 'a) list"

record 'a store =
  cls :: pyclass
  frame :: frame
  nid :: nat
  dim :: nat
  sindex :: int
  output_formatter :: "string option"
  sym :: "nat list list"
  antisym :: "nat list list"
  comp_dict :: "'a dict"

subsection \<open>Construction\<close>

definition Components_init ::
  "frame \<Rightarrow> nat \<Rightarrow> int \<Rightarrow> string option \<Rightarrow> 'a store" where
  "Components_init fr nb_indices start_index fmt =
     \<lparr>cls = Components, frame = fr, nid = nb_indices, dim = length fr,
      sindex = start_index, output_formatter = fmt, sym = [], antisym = [],
      comp_dict = []\<rparr>"

text \<open>
  The checks of \<^verbatim>\<open>CompWithSym.__init__\<close> on one list of groups: every group has at
  least two positions, each below \<^verbatim>\<open>nid\<close> (positions are naturals here, so the test
  \<^verbatim>\<open>i < 0\<close> never fires).
\<close>

definition groups_ok :: "nat \<Rightarrow> nat list list \<Rightarrow> bool" where
  "groups_ok n gs = list_all (\<lambda>g. 2 \<le> length g \<and> list_all (\<lambda>i. i < n) g) gs"

text \<open>
  \<^verbatim>\<open>CompWithSym.__init__\<close>, called with the lists of groups (the shorthand of a
  single group given as one tuple is resolved by the caller). The first argument is
  the class of the object under construction, since the subclasses call this
  initialiser on themselves.
\<close>

definition CompWithSym_init ::
  "pyclass \<Rightarrow> frame \<Rightarrow> nat \<Rightarrow> int \<Rightarrow> string option \<Rightarrow> nat list list \<Rightarrow> nat list list
     \<Rightarrow> error + 'a store" where
  "CompWithSym_init c fr nb_indices start_index fmt sy asy =
     (if \<not> groups_ok nb_indices sy then Inl InvalidSymmetrySpec
      else if \<not> groups_ok nb_indices asy then Inl InvalidSymmetrySpec
      else if \<not> distinct (concat sy @ concat asy) then Inl InvalidSymmetrySpec
      else Inr \<lparr>cls = c, frame = fr, nid = nb_indices, dim = length fr,
                sindex = start_index, output_formatter = fmt, sym = sy, antisym = asy,
                comp_dict = []\<rparr>)"

text \<open>
  \<^verbatim>\<open>range(nb_indices)\<close> handed over as \<^verbatim>\<open>sym\<close> or \<^verbatim>\<open>antisym\<close>: the empty list
  stands for no group at all, any other list is one group.
\<close>

definition range_group :: "nat \<Rightarrow> nat list list" where
  "range_group n = (if n = 0 then [] else [[0..<n]])"

definition CompFullySym_init ::
  "pyclass \<Rightarrow> frame \<Rightarrow> nat \<Rightarrow> int \<Rightarrow> string option \<Rightarrow> error + 'a store" where
  "CompFullySym_init c fr nb_indices start_index fmt =
     CompWithSym_init c fr nb_indices start_index fmt (range_group nb_indices) []"

definition CompFullyAntiSym_init ::
  "frame \<Rightarrow> nat \<Rightarrow> int \<Rightarrow> string option \<Rightarrow> error + 'a store" where
  "CompFullyAntiSym_init fr nb_indices start_index fmt =
     CompWithSym_init CompFullyAntiSym fr nb_indices start_index fmt [] (range_group nb_indices)"

text \<open>
  The invariant the constructors establish and no method breaks: the groups are the
  ones \<^verbatim>\<open>CompWithSym.__init__\<close> accepts, and the two special classes carry their one
  full group.
\<close>

definition valid_sym :: "'a store \<Rightarrow> bool" where
  "valid_sym s \<longleftrightarrow>
     groups_ok (nid s) (sym s) \<and> groups_ok (nid s) (antisym s) \<and>
     distinct (concat (sym s) @ concat (antisym s))"

definition wf_store :: "'a store \<Rightarrow> bool" where
  "wf_store s \<longleftrightarrow>
     dim s = length (frame s) \<and> valid_sym s \<and>
     (case cls s of
        Components \<Rightarrow> sym s = [] \<and> antisym s = []
      | CompWithSym \<Rightarrow> True
      | CompFullySym \<Rightarrow> sym s = range_group (nid s) \<and> antisym s = []
      | CompFullyAntiSym \<Rightarrow> sym s = [] \<and> antisym s = range_group (nid s)
      | KroneckerDelta \<Rightarrow> sym s = range_group (nid s) \<and> antisym s = [])"

subsection \<open>Index checking and canonical ordering\<close>

definition check_indices :: "'a store \<Rightarrow> int list \<Rightarrow> error + int list" where
  "check_indices s ind =
     (if length ind \<noteq> nid s then Inl WrongNumberOfIndices
      else if list_ex (\<lambda>i. i < sindex s \<or> i > int (dim s) - 1 + sindex s) ind
      then Inl IndexOutOfRange
      else Inr ind)"

text \<open>\<^verbatim>\<open>for k, pos in enumerate(isym): ind[pos] = indsym_ordered[k]\<close>\<close>

definition write_back :: "nat list \<Rightarrow> int list \<Rightarrow> int list \<Rightarrow> int list" where
  "write_back isym vals ind = foldl (\<lambda>acc (pos, v). acc[pos := v]) ind (zip isym vals)"

text \<open>One turn of the loop over the symmetric groups.\<close>

definition sym_step :: "int list \<Rightarrow> nat list \<Rightarrow> int list" where
  "sym_step ind isym = write_back isym (sort (map (\<lambda>pos. ind ! pos) isym)) ind"

text \<open>\<^verbatim>\<open>xs.index(x)\<close>: the position of the first occurrence.\<close>

fun list_index :: "'b list \<Rightarrow> 'b \<Rightarrow> nat" where
  "list_index [] x = 0"
| "list_index (y # ys) x = (if x = y then 0 else Suc (list_index ys x))"

fun inversions :: "nat list \<Rightarrow> nat" where
  "inversions [] = 0"
| "inversions (x # xs) = length (filter (\<lambda>y. y < x) xs) + inversions xs"

text \<open>
  Modelled from the spec: \<^verbatim>\<open>Permutation(perm).signature()\<close> of
  \<^verbatim>\<open>sage.combinat.permutation\<close>, which is not among the sources. It is the parity of
  the permutation: \<open>1\<close> when the number of inversions is even, \<open>-1\<close> otherwise.
\<close>

definition signature :: "nat list \<Rightarrow> int" where
  "signature perm = (if even (inversions perm) then 1 else - 1)"

text \<open>
  The loop over the antisymmetric groups, with its early \<^verbatim>\<open>return (0, None)\<close> when an
  index value is repeated inside a group.
\<close>

fun antisym_loop :: "nat list list \<Rightarrow> int list \<Rightarrow> int \<Rightarrow> int \<times> int list option" where
  "antisym_loop [] ind sign = (sign, Some ind)"
| "antisym_loop (isym # rest) ind sign =
     (let indsym = map (\<lambda>pos. ind ! pos) isym in
      if \<not> distinct indsym then (0, None)
      else
        let indsym_ordered = sort indsym;
            ind' = write_back isym indsym_ordered ind;
            sign' = (if indsym_ordered \<noteq> indsym
                     then sign * signature (map (\<lambda>i. list_index indsym i + 1) indsym_ordered)
                     else sign)
        in antisym_loop rest ind' sign')"

definition ordered_indices :: "'a store \<Rightarrow> int list \<Rightarrow> error + (int \<times> int list option)" where
  "ordered_indices s indices =
     (case check_indices s indices of
        Inl e \<Rightarrow> Inl e
      | Inr ind \<Rightarrow> Inr (antisym_loop (antisym s) (foldl sym_step ind (sym s)) 1))"

subsection \<open>Reading and writing one component\<close>

text \<open>\<^verbatim>\<open>ind in self._comp\<close>, where \<^verbatim>\<open>ind\<close> may be \<^verbatim>\<open>None\<close> (never a key).\<close>

definition has_key :: "int list option \<Rightarrow> 'a dict \<Rightarrow> bool" where
  "has_key ind d = (case ind of None \<Rightarrow> False | Some k \<Rightarrow> map_of d k \<noteq> None)"

definition del_key :: "int list option \<Rightarrow> 'a dict \<Rightarrow> 'a dict" where
  "del_key ind d = (case ind of None \<Rightarrow> d | Some k \<Rightarrow> AList.delete k d)"

definition Components_getitem :: "'a::zero store \<Rightarrow> int list \<Rightarrow> error + 'a" where
  "Components_getitem s indices =
     (case check_indices s indices of
        Inl e \<Rightarrow> Inl e
      | Inr ind \<Rightarrow> (case map_of (comp_dict s) ind of Some v \<Rightarrow> Inr v | None \<Rightarrow> Inr 0))"

definition CompWithSym_getitem :: "'a::{zero,uminus} store \<Rightarrow> int list \<Rightarrow> error + 'a" where
  "CompWithSym_getitem s indices =
     (case ordered_indices s indices of
        Inl e \<Rightarrow> Inl e
      | Inr (sign, ind) \<Rightarrow>
          if sign = 0 \<or> \<not> has_key ind (comp_dict s) then Inr 0
          else if sign = 1 then Inr (the (map_of (comp_dict s) (the ind)))
          else Inr (- the (map_of (comp_dict s) (the ind))))"

definition CompFullySym_getitem :: "'a::zero store \<Rightarrow> int list \<Rightarrow> error + 'a" where
  "CompFullySym_getitem s indices =
     (case ordered_indices s indices of
        Inl e \<Rightarrow> Inl e
      | Inr (sign, ind) \<Rightarrow>
          if has_key ind (comp_dict s) then Inr (the (map_of (comp_dict s) (the ind)))
          else Inr 0)"

definition getitem :: "'a::{zero,uminus} store \<Rightarrow> int list \<Rightarrow> error + 'a" where
  "getitem s indices =
     (case cls s of
        Components \<Rightarrow> Components_getitem s indices
      | CompWithSym \<Rightarrow> CompWithSym_getitem s indices
      | CompFullySym \<Rightarrow> CompFullySym_getitem s indices
      | CompFullyAntiSym \<Rightarrow> CompWithSym_getitem s indices
      | KroneckerDelta \<Rightarrow> CompFullySym_getitem s indices)"

definition Components_setitem :: "'a::zero store \<Rightarrow> int list \<Rightarrow> 'a \<Rightarrow> error + 'a store" where
  "Components_setitem s indices val =
     (case check_indices s indices of
        Inl e \<Rightarrow> Inl e
      | Inr ind \<Rightarrow>
          if val = 0 then
            (if map_of (comp_dict s) ind \<noteq> None
             then Inr (s\<lparr>comp_dict := AList.delete ind (comp_dict s)\<rparr>)
             else Inr s)
          else Inr (s\<lparr>comp_dict := AList.update ind val (comp_dict s)\<rparr>))"

definition CompWithSym_setitem ::
  "'a::{zero,uminus} store \<Rightarrow> int list \<Rightarrow> 'a \<Rightarrow> error + 'a store" where
  "CompWithSym_setitem s indices val =
     (case ordered_indices s indices of
        Inl e \<Rightarrow> Inl e
      | Inr (sign, ind) \<Rightarrow>
          if sign = 0 then
            (if val \<noteq> 0 then Inl AntisymmetryConflict
             else if has_key ind (comp_dict s)
             then Inr (s\<lparr>comp_dict := del_key ind (comp_dict s)\<rparr>)
             else Inr s)
          else if val = 0 then
            (if has_key ind (comp_dict s)
             then Inr (s\<lparr>comp_dict := del_key ind (comp_dict s)\<rparr>)
             else Inr s)
          else if sign = 1 then Inr (s\<lparr>comp_dict := AList.update (the ind) val (comp_dict s)\<rparr>)
          else Inr (s\<lparr>comp_dict := AList.update (the ind) (- val) (comp_dict s)\<rparr>))"

text \<open>
  \<^verbatim>\<open>CompFullySym.__setitem__\<close> ignores the sign. With a key \<^verbatim>\<open>None\<close> (which needs an
  antisymmetric group, and a fully symmetric store has none) Python would store the
  value under \<^verbatim>\<open>None\<close>; the dictionary here has no such key, so that branch is an
  error of its own.
\<close>

definition CompFullySym_setitem :: "'a::zero store \<Rightarrow> int list \<Rightarrow> 'a \<Rightarrow> error + 'a store" where
  "CompFullySym_setitem s indices val =
     (case ordered_indices s indices of
        Inl e \<Rightarrow> Inl e
      | Inr (sign, ind) \<Rightarrow>
          if val = 0 then
            (if has_key ind (comp_dict s)
             then Inr (s\<lparr>comp_dict := del_key ind (comp_dict s)\<rparr>)
             else Inr s)
          else (case ind of
                  None \<Rightarrow> Inl NoneKey
                | Some k \<Rightarrow> Inr (s\<lparr>comp_dict := AList.update k val (comp_dict s)\<rparr>)))"

definition setitem :: "'a::{zero,uminus} store \<Rightarrow> int list \<Rightarrow> 'a \<Rightarrow> error + 'a store" where
  "setitem s indices val =
     (case cls s of
        Components \<Rightarrow> Components_setitem s indices val
      | CompWithSym \<Rightarrow> CompWithSym_setitem s indices val
      | CompFullySym \<Rightarrow> CompFullySym_setitem s indices val
      | CompFullyAntiSym \<Rightarrow> CompWithSym_setitem s indices val
      | KroneckerDelta \<Rightarrow> Inl Frozen)"

subsection \<open>Index generators\<close>

text \<open>
  One turn of \<^verbatim>\<open>for pos in range(self.nid-1,-1,-1)\<close> inside the generators; the state
  is the list \<^verbatim>\<open>ind\<close> and the carry \<^verbatim>\<open>ret\<close>.
\<close>

definition odometer_pos :: "int \<Rightarrow> int \<Rightarrow> int list \<times> int \<Rightarrow> nat \<Rightarrow> int list \<times> int" where
  "odometer_pos si imax st pos =
     (let ind = fst st; ret = snd st in
      if ind ! pos \<noteq> imax then (ind[pos := ind ! pos + ret], 0)
      else if ret = 1 then
        (if pos = 0 then (ind[pos := imax + 1], ret) else (ind[pos := si], 1))
      else (ind, ret))"

definition odometer_step :: "int \<Rightarrow> int \<Rightarrow> nat \<Rightarrow> int list \<Rightarrow> int list" where
  "odometer_step si imax n ind = fst (foldl (odometer_pos si imax) (ind, 1) (rev [0..<n]))"

text \<open>
  The \<^verbatim>\<open>while ind != ind_end\<close> loop common to both generators. The tuples that pass
  the test \<open>P\<close> are yielded; the loop collects them in order. A loop that never reaches
  \<^verbatim>\<open>ind_end\<close> has the value \<open>None\<close>.
\<close>

partial_function (option) index_loop ::
  "(int list \<Rightarrow> bool) \<Rightarrow> int \<Rightarrow> int \<Rightarrow> nat \<Rightarrow> int list \<Rightarrow> int list \<Rightarrow> int list list
     \<Rightarrow> int list list option" where
  "index_loop P si imax n ind ind_end acc =
     (if ind = ind_end then Some acc
      else index_loop P si imax n (odometer_step si imax n ind) ind_end
             (if P ind then acc @ [ind] else acc))"

declare index_loop.simps [code]

text \<open>
  The frame of both generators: the start tuple, the end marker (whose assignment
  \<^verbatim>\<open>ind_end[0] = imax+1\<close> raises IndexError on the empty list of a store without
  indices), and the loop.
\<close>

definition run_generator :: "(int list \<Rightarrow> bool) \<Rightarrow> 'a store \<Rightarrow> error + int list list" where
  "run_generator P s =
     (let si = sindex s; imax = int (dim s) - 1 + si;
          ind = replicate (nid s) si
      in if nid s = 0 then Inl EmptyListAssignment
         else (case index_loop P si imax (nid s) ind ((replicate (nid s) si)[0 := imax + 1]) [] of
                 None \<Rightarrow> Inl Nontermination
               | Some inds \<Rightarrow> Inr inds))"

definition index_generator :: "'a store \<Rightarrow> error + int list list" where
  "index_generator s = run_generator (\<lambda>ind. True) s"

text \<open>The test \<^verbatim>\<open>ordered\<close> of \<^verbatim>\<open>CompWithSym.non_redundant_index_generator\<close>.\<close>

definition sym_ordered :: "int list \<Rightarrow> nat list \<Rightarrow> bool" where
  "sym_ordered ind isym =
     list_all (\<lambda>k. \<not> ind ! (isym ! (k + 1)) < ind ! (isym ! k)) [0..<length isym - 1]"

definition antisym_ordered :: "int list \<Rightarrow> nat list \<Rightarrow> bool" where
  "antisym_ordered ind isym =
     list_all (\<lambda>k. \<not> ind ! (isym ! (k + 1)) \<le> ind ! (isym ! k)) [0..<length isym - 1]"

definition is_ordered :: "'a store \<Rightarrow> int list \<Rightarrow> bool" where
  "is_ordered s ind \<longleftrightarrow>
     list_all (sym_ordered ind) (sym s) \<and> list_all (antisym_ordered ind) (antisym s)"

definition non_redundant_index_generator :: "'a store \<Rightarrow> error + int list list" where
  "non_redundant_index_generator s =
     (case cls s of
        Components \<Rightarrow> index_generator s
      | _ \<Rightarrow> run_generator (is_ordered s) s)"

subsection \<open>Zero test, copies and negation\<close>

definition is_zero :: "'a::zero store \<Rightarrow> bool" where
  "is_zero s = (if comp_dict s = [] then True else list_all (\<lambda>(ind, val). val = 0) (comp_dict s))"

text \<open>
  \<^verbatim>\<open>_new_instance\<close>, by class. \<^verbatim>\<open>KroneckerDelta\<close> does not redefine it and inherits
  the one of \<^verbatim>\<open>CompFullySym\<close>.
\<close>

definition new_instance :: "'a store \<Rightarrow> error + 'a store" where
  "new_instance s =
     (case cls s of
        Components \<Rightarrow>
          Inr (Components_init (frame s) (nid s) (sindex s) (output_formatter s))
      | CompWithSym \<Rightarrow>
          CompWithSym_init CompWithSym (frame s) (nid s) (sindex s) (output_formatter s)
            (sym s) (antisym s)
      | CompFullySym \<Rightarrow>
          CompFullySym_init CompFullySym (frame s) (nid s) (sindex s) (output_formatter s)
      | CompFullyAntiSym \<Rightarrow>
          CompFullyAntiSym_init (frame s) (nid s) (sindex s) (output_formatter s)
      | KroneckerDelta \<Rightarrow>
          CompFullySym_init CompFullySym (frame s) (nid s) (sindex s) (output_formatter s))"

text \<open>
  \<^verbatim>\<open>for ind, val in self._comp.items(): result._comp[ind] = f(val)\<close>, the loop of
  \<^verbatim>\<open>copy\<close>, \<^verbatim>\<open>__neg__\<close>, \<^verbatim>\<open>__rmul__\<close> and \<^verbatim>\<open>__div__\<close>.
\<close>

definition fill_from :: "('a \<Rightarrow> 'a) \<Rightarrow> 'a dict \<Rightarrow> 'a store \<Rightarrow> 'a store" where
  "fill_from f items result =
     foldl (\<lambda>r (ind, val). r\<lparr>comp_dict := AList.update ind (f val) (comp_dict r)\<rparr>) result items"

definition copy :: "'a store \<Rightarrow> error + 'a store" where
  "copy s =
     (case new_instance s of
        Inl e \<Rightarrow> Inl e
      | Inr result \<Rightarrow> Inr (fill_from (\<lambda>val. val) (comp_dict s) result))"

definition neg :: "'a::uminus store \<Rightarrow> error + 'a store" where
  "neg s =
     (case new_instance s of
        Inl e \<Rightarrow> Inl e
      | Inr result \<Rightarrow> Inr (fill_from (\<lambda>val. - val) (comp_dict s) result))"

subsection \<open>Addition and subtraction\<close>

text \<open>\<^verbatim>\<open>for ind, val in other._comp.items(): result[[ind]] += val\<close>\<close>

fun add_items :: "'a::{zero,uminus,plus} dict \<Rightarrow> 'a store \<Rightarrow> error + 'a store" where
  "add_items [] result = Inr result"
| "add_items ((ind, val) # rest) result =
     (case getitem result ind of
        Inl e \<Rightarrow> Inl e
      | Inr cur \<Rightarrow>
          (case setitem result ind (cur + val) of
             Inl e \<Rightarrow> Inl e
           | Inr result' \<Rightarrow> add_items rest result'))"

text \<open>
  \<^verbatim>\<open>for ind in result.non_redundant_index_generator():
      result[[ind]] = self[[ind]] + other[[ind]]\<close>, over the tuples the generator yields.
\<close>

fun sum_at ::
  "'a::{zero,uminus,plus} store \<Rightarrow> 'a store \<Rightarrow> int list list \<Rightarrow> 'a store \<Rightarrow> error + 'a store" where
  "sum_at self other [] result = Inr result"
| "sum_at self other (ind # inds) result =
     (case getitem self ind of
        Inl e \<Rightarrow> Inl e
      | Inr a \<Rightarrow>
          (case getitem other ind of
             Inl e \<Rightarrow> Inl e
           | Inr b \<Rightarrow>
               (case setitem result ind (a + b) of
                  Inl e \<Rightarrow> Inl e
                | Inr result' \<Rightarrow> sum_at self other inds result')))"

definition fill_sum ::
  "'a::{zero,uminus,plus} store \<Rightarrow> 'a store \<Rightarrow> 'a store \<Rightarrow> error + 'a store" where
  "fill_sum self other result =
     (case non_redundant_index_generator result of
        Inl e \<Rightarrow> Inl e
      | Inr inds \<Rightarrow> sum_at self other inds result)"

text \<open>
  \<^verbatim>\<open>tuple(set(isym).intersection(set(osym)))\<close>; the positions are listed in ascending
  order.
\<close>

definition common_positions :: "nat list \<Rightarrow> nat list \<Rightarrow> nat list" where
  "common_positions isym osym = sort (remdups (filter (\<lambda>p. p \<in> set osym) isym))"

definition common_groups :: "nat list list \<Rightarrow> nat list list \<Rightarrow> nat list list" where
  "common_groups ss os =
     concat (map (\<lambda>isym. concat (map (\<lambda>osym.
        let com = common_positions isym osym in if length com > 1 then [com] else []) os)) ss)"

definition CompWithSym_add ::
  "'a::{zero,uminus,plus} store \<Rightarrow> 'a store \<Rightarrow> error + 'a store" where
  "CompWithSym_add self other =
     (if is_zero other then copy self
      else if frame other \<noteq> frame self then Inl IncompatibleOperands
      else if nid other \<noteq> nid self then Inl IncompatibleOperands
      else if sindex other \<noteq> sindex self then Inl IncompatibleOperands
      else if cls other \<noteq> Components then
        (if set (sym self) = set (sym other) \<and> set (antisym self) = set (antisym other) then
           (case copy self of
              Inl e \<Rightarrow> Inl e
            | Inr result \<Rightarrow> add_items (comp_dict other) result)
         else
           let common_sym = common_groups (sym self) (sym other);
               common_antisym = common_groups (antisym self) (antisym other)
           in if common_sym \<noteq> [] \<or> common_antisym \<noteq> [] then
                (case CompWithSym_init CompWithSym (frame self) (nid self) (sindex self)
                        (output_formatter self) common_sym common_antisym of
                   Inl e \<Rightarrow> Inl e
                 | Inr result \<Rightarrow> fill_sum self other result)
              else fill_sum self other
                     (Components_init (frame self) (nid self) (sindex self)
                        (output_formatter self)))
      else fill_sum self other
             (Components_init (frame self) (nid self) (sindex self) (output_formatter self)))"

text \<open>
  The branch shared by \<^verbatim>\<open>Components.__add__\<close>, \<^verbatim>\<open>CompFullySym.__add__\<close> and
  \<^verbatim>\<open>CompFullyAntiSym.__add__\<close>: three compatibility checks, a copy of \<^verbatim>\<open>self\<close>, and
  the entries of \<^verbatim>\<open>other\<close> added into it.
\<close>

definition add_same_kind ::
  "'a::{zero,uminus,plus} store \<Rightarrow> 'a store \<Rightarrow> error + 'a store" where
  "add_same_kind self other =
     (if frame other \<noteq> frame self then Inl IncompatibleOperands
      else if nid other \<noteq> nid self then Inl IncompatibleOperands
      else if sindex other \<noteq> sindex self then Inl IncompatibleOperands
      else (case copy self of
              Inl e \<Rightarrow> Inl e
            | Inr result \<Rightarrow> add_items (comp_dict other) result))"

definition CompFullySym_add ::
  "'a::{zero,uminus,plus} store \<Rightarrow> 'a store \<Rightarrow> error + 'a store" where
  "CompFullySym_add self other =
     (if is_zero other then copy self
      else if cls other = CompFullySym \<or> cls other = KroneckerDelta
      then add_same_kind self other
      else CompWithSym_add self other)"

definition CompFullyAntiSym_add ::
  "'a::{zero,uminus,plus} store \<Rightarrow> 'a store \<Rightarrow> error + 'a store" where
  "CompFullyAntiSym_add self other =
     (if is_zero other then copy self
      else if cls other = CompFullyAntiSym then add_same_kind self other
      else CompWithSym_add self other)"

text \<open>
  \<^verbatim>\<open>Components.__add__\<close>: an operand with symmetries takes over
  (\<^verbatim>\<open>return other + self\<close>), by its own class.
\<close>

definition Components_add ::
  "'a::{zero,uminus,plus} store \<Rightarrow> 'a store \<Rightarrow> error + 'a store" where
  "Components_add self other =
     (if is_zero other then copy self
      else (case cls other of
              Components \<Rightarrow> add_same_kind self other
            | CompWithSym \<Rightarrow> CompWithSym_add other self
            | CompFullySym \<Rightarrow> CompFullySym_add other self
            | CompFullyAntiSym \<Rightarrow> CompFullyAntiSym_add other self
            | KroneckerDelta \<Rightarrow> CompFullySym_add other self))"

definition add :: "'a::{zero,uminus,plus} store \<Rightarrow> 'a store \<Rightarrow> error + 'a store" where
  "add self other =
     (case cls self of
        Components \<Rightarrow> Components_add self other
      | CompWithSym \<Rightarrow> CompWithSym_add self other
      | CompFullySym \<Rightarrow> CompFullySym_add self other
      | CompFullyAntiSym \<Rightarrow> CompFullyAntiSym_add self other
      | KroneckerDelta \<Rightarrow> CompFullySym_add self other)"

definition sub :: "'a::{zero,uminus,plus} store \<Rightarrow> 'a store \<Rightarrow> error + 'a store" where
  "sub self other =
     (if is_zero other then copy self
      else (case neg other of
              Inl e \<Rightarrow> Inl e
            | Inr nother \<Rightarrow> add self nother))"

subsection \<open>Multiplication by a scalar, division, tensor product\<close>



text \<open>
  \<^verbatim>\<open>for ind_s, val_s in self._comp.items():
      for ind_o, val_o in other._comp.items():
          result._comp[ind_s + ind_o] = val_s * val_o\<close>
\<close>

definition tensor_items :: "'a::times dict \<Rightarrow> 'a dict \<Rightarrow> 'a dict \<Rightarrow> 'a dict" where
  "tensor_items items_s items_o d =
     foldl (\<lambda>d1 (ind_s, val_s).
        foldl (\<lambda>d2 (ind_o, val_o). AList.update (ind_s @ ind_o) (val_s * val_o) d2) d1 items_o)
       d items_s"

text \<open>\<^verbatim>\<open>tuple(s[i]+self.nid for i in range(len(s)))\<close> for every group \<^verbatim>\<open>s\<close>.\<close>

definition shift_groups :: "nat \<Rightarrow> nat list list \<Rightarrow> nat list list" where
  "shift_groups n gs = map (map (\<lambda>p. p + n)) gs"

text \<open>
  \<^verbatim>\<open>Components.__mul__\<close>. The flag \<open>same\<close> is the test \<^verbatim>\<open>self is other\<close>, an identity
  of objects that the values of the two stores do not determine.
\<close>

definition Components_mul :: "bool \<Rightarrow> 'a::times store \<Rightarrow> 'a store \<Rightarrow> error + 'a store" where
  "Components_mul same self other =
     (if frame other \<noteq> frame self then Inl IncompatibleOperands
      else if sindex other \<noteq> sindex self then Inl IncompatibleOperands
      else
        (case
           (if cls other \<noteq> Components then
              CompWithSym_init CompWithSym (frame self) (nid self + nid other) (sindex self)
                (output_formatter self) (shift_groups (nid self) (sym other))
                (shift_groups (nid self) (antisym other))
            else if nid self = 1 \<and> nid other = 1 then
              (if same then
                 CompFullySym_init CompFullySym (frame self) 2 (sindex self)
                   (output_formatter self)
               else Inr (Components_init (frame self) 2 (sindex self) (output_formatter self)))
            else Inr (Components_init (frame self) (nid self + nid other) (sindex self)
                        (output_formatter self)))
         of
           Inl e \<Rightarrow> Inl e
         | Inr result \<Rightarrow>
             Inr (result\<lparr>comp_dict :=
                    tensor_items (comp_dict self) (comp_dict other) (comp_dict result)\<rparr>)))"

definition CompWithSym_mul :: "'a::times store \<Rightarrow> 'a store \<Rightarrow> error + 'a store" where
  "CompWithSym_mul self other =
     (if frame other \<noteq> frame self then Inl IncompatibleOperands
      else if sindex other \<noteq> sindex self then Inl IncompatibleOperands
      else
        let sy = (if cls other \<noteq> Components
                  then sym self @ shift_groups (nid self) (sym other) else sym self);
            asy = (if cls other \<noteq> Components
                   then antisym self @ shift_groups (nid self) (antisym other)
                   else antisym self)
        in (case CompWithSym_init CompWithSym (frame self) (nid self + nid other)
                   (sindex self) (output_formatter self) sy asy of
              Inl e \<Rightarrow> Inl e
            | Inr result \<Rightarrow>
                Inr (result\<lparr>comp_dict :=
                       tensor_items (comp_dict self) (comp_dict other) (comp_dict result)\<rparr>)))"

text \<open>\<^verbatim>\<open>self * other\<close>: only \<^verbatim>\<open>Components\<close> and \<^verbatim>\<open>CompWithSym\<close> define \<^verbatim>\<open>__mul__\<close>.\<close>

definition mul :: "bool \<Rightarrow> 'a::times store \<Rightarrow> 'a store \<Rightarrow> error + 'a store" where
  "mul same self other =
     (case cls self of
        Components \<Rightarrow> Components_mul same self other
      | _ \<Rightarrow> CompWithSym_mul self other)"

text \<open>
  Stores as objects: a heap gives every reference its store, and two operands are the
  same object when the references are equal.
\<close>

type_synonym 'a heap = "nat \<Rightarrow> 'a store"

definition mul_objects :: "'a::times heap \<Rightarrow> nat \<Rightarrow> nat \<Rightarrow> error + 'a store" where
  "mul_objects h a b = mul (a = b) (h a) (h b)"

subsection \<open>Comparison\<close>

text \<open>The right operand of \<^verbatim>\<open>==\<close>: an integer, a store, or anything else.\<close>

datatype 'a operand = Number int | Stored "'a store" | Foreign

definition eq :: "'a::{zero,uminus,plus} store \<Rightarrow> 'a operand \<Rightarrow> error + bool" where
  "eq self other =
     (case other of
        Number n \<Rightarrow> if n = 0 then Inr (is_zero self) else Inl CannotCompareToNumber
      | Foreign \<Rightarrow> Inl NotComponents
      | Stored t \<Rightarrow>
          if frame t \<noteq> frame self then Inr False
          else if nid t \<noteq> nid self then Inr False
          else if sindex t \<noteq> sindex self then Inr False
          else if output_formatter t \<noteq> output_formatter self then Inr False
          else (case sub self t of Inl e \<Rightarrow> Inl e | Inr d \<Rightarrow> Inr (is_zero d)))"

text \<open>\<^verbatim>\<open>__ne__\<close>: \<^verbatim>\<open>not self.__eq__(other)\<close>; an exception of \<^verbatim>\<open>__eq__\<close> passes through.\<close>

definition ne :: "'a::{zero,uminus,plus} store \<Rightarrow> 'a operand \<Rightarrow> error + bool" where
  "ne self other = (case eq self other of Inl e \<Rightarrow> Inl e | Inr b \<Rightarrow> Inr (\<not> b))"

subsection \<open>Symmetrization and antisymmetrization\<close>

text \<open>
  The argument \<^verbatim>\<open>pos\<close>: \<^verbatim>\<open>None\<close> stands for all positions, a given list needs
  at least two and at most \<^verbatim>\<open>nid\<close> entries (TypeError otherwise).
\<close>

definition given_positions :: "'a store \<Rightarrow> nat list option \<Rightarrow> error + nat list" where
  "given_positions s pos =
     (case pos of
        None \<Rightarrow> Inr [0..<nid s]
      | Some p \<Rightarrow>
          if length p < 2 then Inl BadPositionCount
          else if length p > nid s then Inl BadPositionCount
          else Inr p)"

text \<open>
  Modelled from the spec: \<^verbatim>\<open>SymmetricGroup(n_sym).list()\<close> of
  \<^verbatim>\<open>sage.groups.perm_gps\<close>, which is not among the sources: all permutations of the
  \<^verbatim>\<open>n_sym\<close> positions, each given by the list of its images (\<^verbatim>\<open>perm_action\<close>); the
  order of the group is \<open>n_sym!\<close> and the sign of a permutation is its parity.
\<close>

fun insert_all :: "nat \<Rightarrow> nat list \<Rightarrow> nat list list" where
  "insert_all x [] = [[x]]"
| "insert_all x (y # ys) = (x # y # ys) # map (Cons y) (insert_all x ys)"

fun permutations :: "nat list \<Rightarrow> nat list list" where
  "permutations [] = [[]]"
| "permutations (x # xs) = concat (map (insert_all x) (permutations xs))"

definition symmetric_group :: "nat \<Rightarrow> nat list list" where
  "symmetric_group n = permutations [0..<n]"

text \<open>
  \<^verbatim>\<open>ind_perm = list(ind)
  for k in range(n_sym): ind_perm[pos[perm_action[k]]] = ind[pos[k]]\<close>
\<close>

definition permuted :: "nat list \<Rightarrow> nat list \<Rightarrow> int list \<Rightarrow> int list" where
  "permuted pos perm_action ind =
     foldl (\<lambda>ind_perm k. ind_perm[pos ! (perm_action ! k) := ind ! (pos ! k)]) ind
       [0..<length pos]"

text \<open>
  The sum over the group for one index tuple; \<open>anti\<close> tells the antisymmetrization,
  whose odd permutations are subtracted. A position beyond the tuple raises IndexError.
\<close>

fun perm_sum ::
  "bool \<Rightarrow> 'a::{zero,uminus,plus,minus} store \<Rightarrow> nat list \<Rightarrow> int list \<Rightarrow> nat list list \<Rightarrow> 'a
     \<Rightarrow> error + 'a" where
  "perm_sum anti s pos ind [] acc = Inr acc"
| "perm_sum anti s pos ind (perm # perms) acc =
     (if list_ex (\<lambda>p. p \<ge> length ind) pos then Inl PositionOutOfRange
      else (case getitem s (permuted pos perm ind) of
              Inl e \<Rightarrow> Inl e
            | Inr x \<Rightarrow>
                perm_sum anti s pos ind perms
                  (if anti \<and> signature perm \<noteq> 1 then acc - x else acc + x)))"

text \<open>
  \<^verbatim>\<open>for ind in result.non_redundant_index_generator(): ...
      result[[ind]] = sum / sym_group.order()\<close>
\<close>

fun symmetrize_fill ::
  "bool \<Rightarrow> 'a::field store \<Rightarrow> nat list \<Rightarrow> int list list \<Rightarrow> 'a store \<Rightarrow> error + 'a store" where
  "symmetrize_fill anti s pos [] result = Inr result"
| "symmetrize_fill anti s pos (ind # inds) result =
     (case perm_sum anti s pos ind (symmetric_group (length pos)) 0 of
        Inl e \<Rightarrow> Inl e
      | Inr acc \<Rightarrow>
          if (of_nat (fact (length pos)) :: 'a) = 0 then Inl ZeroDivisionError
          else (case setitem result ind (acc / of_nat (fact (length pos))) of
                  Inl e \<Rightarrow> Inl e
                | Inr result' \<Rightarrow> symmetrize_fill anti s pos inds result'))"

definition symmetrize_result ::
  "bool \<Rightarrow> 'a::field store \<Rightarrow> nat list \<Rightarrow> error + 'a store \<Rightarrow> error + 'a store" where
  "symmetrize_result anti s pos res =
     (case res of
        Inl e \<Rightarrow> Inl e
      | Inr result \<Rightarrow>
          (case non_redundant_index_generator result of
             Inl e \<Rightarrow> Inl e
           | Inr inds \<Rightarrow> symmetrize_fill anti s pos inds result))"

text \<open>
  The loop over the groups of the other kind. \<open>None\<close> is the early return of an empty
  (zero) store: two of the positions lie in one such group. Otherwise a group that
  holds one of the positions loses it (and is dropped when a single position remains),
  and the other groups are kept.
\<close>

fun interfere :: "nat list \<Rightarrow> nat list list \<Rightarrow> nat list list option" where
  "interfere pos [] = Some []"
| "interfere pos (iasym # rest) =
     (let inter = common_positions pos iasym in
      if length inter > 1 then None
      else (case interfere pos rest of
              None \<Rightarrow> None
            | Some res \<Rightarrow>
                if length inter = 1 then
                  (let iasym_res = sort (remdups (filter (\<lambda>p. p \<noteq> hd inter) iasym)) in
                   if length iasym_res > 1 then Some (iasym_res # res) else Some res)
                else Some (iasym # res)))"

text \<open>
  The new group, extended by every group of the same kind it meets, followed by the
  groups it does not meet: the state is the growing group and the groups kept.
\<close>

definition extend_step :: "nat list \<times> nat list list \<Rightarrow> nat list \<Rightarrow> nat list \<times> nat list list" where
  "extend_step st isym =
     (if list_ex (\<lambda>p. p \<in> set isym) (fst st)
      then (sort (remdups (fst st @ isym)), snd st)
      else (fst st, snd st @ [isym]))"

definition extended_groups :: "nat list \<Rightarrow> nat list list \<Rightarrow> nat list list" where
  "extended_groups pos gs =
     (let st = foldl extend_step (sort (remdups pos), []) gs in fst st # snd st)"

definition max_length :: "nat list list \<Rightarrow> nat" where
  "max_length gs = foldl (\<lambda>m g. max m (length g)) 0 gs"

definition Components_symmetrize ::
  "'a::field store \<Rightarrow> nat list option \<Rightarrow> error + 'a store" where
  "Components_symmetrize s pos_arg =
     (case given_positions s pos_arg of
        Inl e \<Rightarrow> Inl e
      | Inr pos \<Rightarrow>
          symmetrize_result False s pos
            (if length pos = nid s then
               CompFullySym_init CompFullySym (frame s) (nid s) (sindex s) (output_formatter s)
             else CompWithSym_init CompWithSym (frame s) (nid s) (sindex s)
                    (output_formatter s) [pos] []))"

definition Components_antisymmetrize ::
  "'a::field store \<Rightarrow> nat list option \<Rightarrow> error + 'a store" where
  "Components_antisymmetrize s pos_arg =
     (case given_positions s pos_arg of
        Inl e \<Rightarrow> Inl e
      | Inr pos \<Rightarrow>
          symmetrize_result True s pos
            (if length pos = nid s then
               CompFullyAntiSym_init (frame s) (nid s) (sindex s) (output_formatter s)
             else CompWithSym_init CompWithSym (frame s) (nid s) (sindex s)
                    (output_formatter s) [] [pos]))"

definition CompWithSym_symmetrize ::
  "'a::field store \<Rightarrow> nat list option \<Rightarrow> error + 'a store" where
  "CompWithSym_symmetrize s pos_arg =
     (case given_positions s pos_arg of
        Inl e \<Rightarrow> Inl e
      | Inr pos \<Rightarrow>
          if list_ex (\<lambda>isym. list_all (\<lambda>p. p \<in> set isym) pos) (sym s) then copy s
          else
            (case interfere pos (antisym s) of
               None \<Rightarrow>
                 CompFullySym_init CompFullySym (frame s) (nid s) (sindex s)
                   (output_formatter s)
             | Some antisym_res \<Rightarrow>
                 let sym_res = extended_groups pos (sym s) in
                 symmetrize_result False s pos
                   (if max_length sym_res = nid s then
                      CompFullySym_init CompFullySym (frame s) (nid s) (sindex s)
                        (output_formatter s)
                    else CompWithSym_init CompWithSym (frame s) (nid s) (sindex s)
                           (output_formatter s) sym_res antisym_res)))"

definition CompWithSym_antisymmetrize ::
  "'a::field store \<Rightarrow> nat list option \<Rightarrow> error + 'a store" where
  "CompWithSym_antisymmetrize s pos_arg =
     (case given_positions s pos_arg of
        Inl e \<Rightarrow> Inl e
      | Inr pos \<Rightarrow>
          if list_ex (\<lambda>iasym. list_all (\<lambda>p. p \<in> set iasym) pos) (antisym s) then copy s
          else
            (case interfere pos (sym s) of
               None \<Rightarrow>
                 CompFullyAntiSym_init (frame s) (nid s) (sindex s) (output_formatter s)
             | Some sym_res \<Rightarrow>
                 let antisym_res = extended_groups pos (antisym s) in
                 symmetrize_result True s pos
                   (if max_length antisym_res = nid s then
                      CompFullyAntiSym_init (frame s) (nid s) (sindex s) (output_formatter s)
                    else CompWithSym_init CompWithSym (frame s) (nid s) (sindex s)
                           (output_formatter s) sym_res antisym_res)))"

definition symmetrize :: "'a::field store \<Rightarrow> nat list option \<Rightarrow> error + 'a store" where
  "symmetrize s pos_arg =
     (case cls s of
        Components \<Rightarrow> Components_symmetrize s pos_arg
      | _ \<Rightarrow> CompWithSym_symmetrize s pos_arg)"

definition antisymmetrize :: "'a::field store \<Rightarrow> nat list option \<Rightarrow> error + 'a store" where
  "antisymmetrize s pos_arg =
     (case cls s of
        Components \<Rightarrow> Components_antisymmetrize s pos_arg
      | _ \<Rightarrow> CompWithSym_antisymmetrize s pos_arg)"

subsection \<open>Contraction\<close>

text \<open>
  Both \<^verbatim>\<open>self_contract\<close> methods read \<^verbatim>\<open>self.manifold.sindex\<close> and
  \<^verbatim>\<open>self.manifold.dim\<close>. No constructor and no method of the module gives a store an
  attribute \<^verbatim>\<open>manifold\<close> (the fields are those of the record \<open>store\<close>), so the read
  raises AttributeError.
\<close>

record manifold =
  m_sindex :: int
  m_dim :: nat

definition get_manifold :: "'a store \<Rightarrow> error + manifold" where
  "get_manifold s = Inl (AttributeError ''manifold'')"

text \<open>A contraction returns a ring element (two indices) or a store (more).\<close>

datatype 'a contracted = Scalar 'a | Comps "'a store"

text \<open>\<^verbatim>\<open>res = 0; for i in range(si, nsi): res += self[[i,i]]\<close>\<close>

fun diagonal_sum :: "'a::{zero,uminus,plus} store \<Rightarrow> int list \<Rightarrow> 'a \<Rightarrow> error + 'a" where
  "diagonal_sum s [] res = Inr res"
| "diagonal_sum s (i # rest) res =
     (case getitem s [i, i] of
        Inl e \<Rightarrow> Inl e
      | Inr x \<Rightarrow> diagonal_sum s rest (res + x))"

text \<open>The argument checks both methods start with.\<close>

definition contract_checks :: "'a store \<Rightarrow> int \<Rightarrow> int \<Rightarrow> error option" where
  "contract_checks s pos1 pos2 =
     (if nid s < 2 then Some ContractionTooFewIndices
      else if pos1 < 0 \<or> pos1 > int (nid s) - 1 then Some PositionOutOfRange
      else if pos2 < 0 \<or> pos2 > int (nid s) - 1 then Some PositionOutOfRange
      else if pos1 = pos2 then Some PositionOutOfRange
      else None)"

text \<open>
  \<^verbatim>\<open>Components.self_contract\<close>. With more than two indices the method calls
  \<^verbatim>\<open>Components(self.frame, self.nid - 2)\<close>, two arguments where the constructor needs
  three.
\<close>

definition Components_self_contract ::
  "'a::{zero,uminus,plus} store \<Rightarrow> int \<Rightarrow> int \<Rightarrow> error + 'a contracted" where
  "Components_self_contract s pos1 pos2 =
     (case contract_checks s pos1 pos2 of
        Some e \<Rightarrow> Inl e
      | None \<Rightarrow>
          (case get_manifold s of
             Inl e \<Rightarrow> Inl e
           | Inr m \<Rightarrow>
               let si = m_sindex m; nsi = si + int (m_dim m) in
               if nid s = 2 then
                 (case diagonal_sum s [si..nsi - 1] 0 of
                    Inl e \<Rightarrow> Inl e
                  | Inr res \<Rightarrow> Inr (Scalar res))
               else Inl MissingArgument))"

text \<open>
  \<^verbatim>\<open>CompWithSym.self_contract\<close>, for two indices; with more than two the method goes
  on to the reduced symmetries, which the read of \<^verbatim>\<open>self.manifold\<close> before the branch
  keeps out of reach and which are not given here.
\<close>

definition CompWithSym_self_contract2 ::
  "'a::{zero,uminus,plus} store \<Rightarrow> int \<Rightarrow> int \<Rightarrow> error + 'a contracted" where
  "CompWithSym_self_contract2 s pos1 pos2 =
     (case contract_checks s pos1 pos2 of
        Some e \<Rightarrow> Inl e
      | None \<Rightarrow>
          (case get_manifold s of
             Inl e \<Rightarrow> Inl e
           | Inr m \<Rightarrow>
               let si = m_sindex m; nsi = si + int (m_dim m) in
               (case diagonal_sum s [si..nsi - 1] 0 of
                  Inl e \<Rightarrow> Inl e
                | Inr res \<Rightarrow> Inr (Scalar res))))"

text \<open>\<^verbatim>\<open>c.self_contract(pos1, pos2)\<close> for a store of two indices, by class.\<close>

definition self_contract2 ::
  "'a::{zero,uminus,plus} store \<Rightarrow> int \<Rightarrow> int \<Rightarrow> error + 'a contracted" where
  "self_contract2 s pos1 pos2 =
     (case cls s of
        Components \<Rightarrow> Components_self_contract s pos1 pos2
      | _ \<Rightarrow> CompWithSym_self_contract2 s pos1 pos2)"

subsection \<open>The Kronecker delta\<close>

text \<open>
  Positional arguments of a constructor call. \<^verbatim>\<open>CompFullySym.__init__(self, ring,
  frame, nb_indices, start_index=0, output_formatter=None)\<close> binds them in order; a
  call with fewer than three raises TypeError, and so does \<^verbatim>\<open>len(frame)\<close> when the
  second one is no frame.
\<close>

datatype pyarg = FrameArg frame | IntArg int | RingArg

fun CompFullySym_call :: "pyclass \<Rightarrow> pyarg list \<Rightarrow> error + 'a store" where
  "CompFullySym_call c (ring # FrameArg fr # IntArg n # rest) =
     CompFullySym_init c fr (nat n) (case rest of IntArg si # _ \<Rightarrow> si | _ \<Rightarrow> 0) None"
| "CompFullySym_call c (ring # x # y # rest) = Inl BadArgument"
| "CompFullySym_call c args = Inl MissingArgument"

text \<open>
  \<^verbatim>\<open>KroneckerDelta.__init__(self, frame)\<close>: it calls
  \<^verbatim>\<open>CompFullySym.__init__(self, frame, 2)\<close> and then reads \<^verbatim>\<open>self.domain\<close>, an
  attribute no store has, before it fills the diagonal.
\<close>

definition KroneckerDelta_init :: "frame \<Rightarrow> error + 'a store" where
  "KroneckerDelta_init fr =
     (case (CompFullySym_call KroneckerDelta [FrameArg fr, IntArg 2] :: error + 'a store) of
        Inl e \<Rightarrow> Inl e
      | Inr s \<Rightarrow> Inl (AttributeError ''domain''))"

subsection \<open>Example stores\<close>

text \<open>
  \<^verbatim>\<open>CompWithSym(QQ, V.basis(), 2, antisym=(0,1))\<close> of the class docstring, over a
  frame of length 3 (the coefficients used below are integers).
\<close>

definition ex_antisym :: "int store" where
  "ex_antisym =
     \<lparr>cls = CompWithSym, frame = [''e0'', ''e1'', ''e2''], nid = 2, dim = 3, sindex = 0,
      output_formatter = None, sym = [], antisym = [[0, 1]], comp_dict = []\<rparr>"

text \<open>
  The plain store of two indices over a frame of length 3 with the values
  \<open>[[1,2,3],[4,5,6],[7,8,9]]\<close>; a plain vector and the same vector as a
  \<^verbatim>\<open>CompWithSym\<close> without symmetries (\<^verbatim>\<open>CompWithSym(ring, frame, 1)\<close>); a heap
  holding the two; and a plain vector over the integers modulo 4.
\<close>

definition ex_matrix :: "int store" where
  "ex_matrix =
     \<lparr>cls = Components, frame = [''e0'', ''e1'', ''e2''], nid = 2, dim = 3, sindex = 0,
      output_formatter = None, sym = [], antisym = [],
      comp_dict = [([0, 0], 1), ([0, 1], 2), ([0, 2], 3), ([1, 0], 4), ([1, 1], 5),
                   ([1, 2], 6), ([2, 0], 7), ([2, 1], 8), ([2, 2], 9)]\<rparr>"

definition ex_vector :: "int store" where
  "ex_vector =
     \<lparr>cls = Components, frame = [''e0'', ''e1'', ''e2''], nid = 1, dim = 3, sindex = 0,
      output_formatter = None, sym = [], antisym = [], comp_dict = [([0], 2), ([2], 5)]\<rparr>"

definition ex_vector_withsym :: "int store" where
  "ex_vector_withsym = ex_vector\<lparr>cls := CompWithSym\<rparr>"

definition ex_heap :: "int heap" where
  "ex_heap a = (if a = 0 then ex_vector else ex_vector_withsym)"


subsection \<open>Auxiliary functions for the index generators\<close>

text \<open>
  Used in the proofs only. \<open>digit\<close> is the effect of one turn of the inner loop on a
  position other than the first, \<open>carry\<close> runs it from the right end of a tail, and
  \<open>tuples\<close> is the list of all tuples over a range in lexicographic order.
\<close>

definition digit :: "int \<Rightarrow> int \<Rightarrow> int \<times> int \<Rightarrow> int \<times> int" where
  "digit si imax xr =
     (if fst xr \<noteq> imax then (fst xr + snd xr, 0)
      else if snd xr = 1 then (si, 1) else (fst xr, snd xr))"

fun carry :: "int \<Rightarrow> int \<Rightarrow> int list \<Rightarrow> int list \<times> int" where
  "carry si imax [] = ([], 1)"
| "carry si imax (x # t) =
     (let c = carry si imax t; d = digit si imax (x, snd c) in (fst d # fst c, snd d))"

definition blocks :: "int list list \<Rightarrow> int \<Rightarrow> int \<Rightarrow> int list list" where
  "blocks T lo hi = concat (map (\<lambda>x. map (Cons x) T) [lo..hi])"

definition tuples :: "int \<Rightarrow> int \<Rightarrow> nat \<Rightarrow> int list list" where
  "tuples si imax m = product_lists (replicate m [si..imax])"

text \<open>
  Empty fully symmetric and fully antisymmetric stores of two indices over a frame of
  length 3, and a plain store without indices.
\<close>

definition ex_fullysym :: "int store" where
  "ex_fullysym =
     \<lparr>cls = CompFullySym, frame = [''e0'', ''e1'', ''e2''], nid = 2, dim = 3, sindex = 0,
      output_formatter = None, sym = [[0, 1]], antisym = [], comp_dict = []\<rparr>"

definition ex_fullyantisym :: "int store" where
  "ex_fullyantisym =
     \<lparr>cls = CompFullyAntiSym, frame = [''e0'', ''e1'', ''e2''], nid = 2, dim = 3, sindex = 0,
      output_formatter = None, sym = [], antisym = [[0, 1]], comp_dict = []\<rparr>"

definition ex_scalar :: "int store" where
  "ex_scalar = Components_init [''e0'', ''e1'', ''e2''] 0 0 None"

subsection \<open>The invariant of the dictionary\<close>




subsection \<open>Canonical tuples\<close>


text \<open>
  A tuple in canonical form for a store: in range, and left as it is, with sign 1, by
  the ordering of the store's class.
\<close>

definition canonical :: "'a store \<Rightarrow> int list \<Rightarrow> bool" where
  "canonical r ind \<longleftrightarrow>
     (case cls r of
        Components \<Rightarrow> check_indices r ind = Inr ind
      | _ \<Rightarrow> ordered_indices r ind = Inr (1, Some ind))"




text \<open>
  Two stores of two indices over a frame of length 3 with rational entries: the first
  antisymmetric, the second symmetric in the positions \<open>(0,1)\<close>, each with the value \<open>3\<close>
  at \<open>[0,1]\<close>.
\<close>

definition ex_antisym_rat :: "rat store" where
  "ex_antisym_rat =
     \<lparr>cls = CompWithSym, frame = [''e0'', ''e1'', ''e2''], nid = 2, dim = 3, sindex = 0,
      output_formatter = None, sym = [], antisym = [[0, 1]], comp_dict = [([0, 1], 3)]\<rparr>"

definition ex_sym_rat :: "rat store" where
  "ex_sym_rat =
     \<lparr>cls = CompWithSym, frame = [''e0'', ''e1'', ''e2''], nid = 2, dim = 3, sindex = 0,
      output_formatter = None, sym = [[0, 1]], antisym = [], comp_dict = [([0, 1], 3)]\<rparr>"

section \<open>Properties\<close>

subsection \<open>Canonical ordering\<close>

lemma ex_antisym_wf: "wf_store ex_antisym"
  by (simp add: wf_store_def valid_sym_def groups_ok_def ex_antisym_def)

lemma ex_oi10: "ordered_indices ex_antisym [1, 0] = Inr (- 1, Some [0, 1])"
  by (simp add: ordered_indices_def check_indices_def ex_antisym_def write_back_def
      signature_def Let_def)

lemma ex_oi01: "ordered_indices ex_antisym [0, 1] = Inr (1, Some [0, 1])"
  by (simp add: ordered_indices_def check_indices_def ex_antisym_def write_back_def
      signature_def Let_def)

lemma write_back_nth_other:
  "p \<notin> set isym \<Longrightarrow> write_back isym vals ind ! p = ind ! p"
proof -
  have "\<And>ind. p \<notin> fst ` set ps \<Longrightarrow> foldl (\<lambda>acc (pos, v). acc[pos := v]) ind ps ! p = ind ! p" for ps :: "(nat \<times> int) list"
    by (induction ps) (auto)
  moreover assume "p \<notin> set isym"
  then have "p \<notin> fst ` set (zip isym vals)" by (auto dest: set_zip_leftD)
  ultimately show ?thesis by (simp add: write_back_def)
qed

lemma write_back_length [simp]: "length (write_back isym vals ind) = length ind"
proof -
  have "\<And>ind. length (foldl (\<lambda>acc (pos, v). acc[pos := v]) ind ps) = length ind" for ps :: "(nat \<times> int) list"
    by (induction ps) auto
  then show ?thesis by (simp add: write_back_def)
qed

lemma repeated_not_distinct:
  "p \<in> set g \<Longrightarrow> q \<in> set g \<Longrightarrow> p \<noteq> q \<Longrightarrow> ind ! p = ind ! q \<Longrightarrow> \<not> distinct (map (\<lambda>pos. ind ! pos) g)"
  by (auto simp: distinct_map inj_on_def)

lemma antisym_loop_repeated:
  "g \<in> set gs \<Longrightarrow> distinct (concat gs) \<Longrightarrow> p \<in> set g \<Longrightarrow> q \<in> set g \<Longrightarrow> p \<noteq> q \<Longrightarrow>
   ind ! p = ind ! q \<Longrightarrow> antisym_loop gs ind sign = (0, None)"
proof (induction gs arbitrary: ind sign)
  case Nil
  then show ?case by simp
next
  case (Cons h rest)
  show ?case
  proof (cases "distinct (map (\<lambda>pos. ind ! pos) h)")
    case False
    then show ?thesis by simp
  next
    case True
    with Cons.prems repeated_not_distinct[of p h q ind] have "g \<noteq> h" by auto
    with Cons.prems have g: "g \<in> set rest" by simp
    from Cons.prems g have "p \<notin> set h" "q \<notin> set h" by auto
    then have "write_back h vals ind ! p = write_back h vals ind ! q" for vals
      using Cons.prems by (simp add: write_back_nth_other)
    moreover from Cons.prems have "distinct (concat rest)" by simp
    ultimately show ?thesis
      using True g Cons.prems Cons.IH by (simp add: Let_def)
  qed
qed

lemma sym_step_nth_other: "p \<notin> set isym \<Longrightarrow> sym_step ind isym ! p = ind ! p"
  by (simp add: sym_step_def write_back_nth_other)

lemma sym_loop_nth_other:
  "p \<notin> set (concat gs) \<Longrightarrow> foldl sym_step ind gs ! p = ind ! p"
  by (induction gs arbitrary: ind) (auto simp: sym_step_nth_other)

lemma signature_cases: "signature p = 1 \<or> signature p = - 1"
  by (simp add: signature_def)

lemma antisym_loop_sign:
  "sign \<in> {1, - 1} \<Longrightarrow> antisym_loop gs ind sign = (sg, r) \<Longrightarrow>
     (sg = 0 \<and> r = None) \<or> (sg \<in> {1, - 1} \<and> r \<noteq> None)"
proof (induction gs arbitrary: ind sign)
  case Nil
  then show ?case by auto
next
  case (Cons h rest)
  show ?case
  proof (cases "distinct (map (\<lambda>pos. ind ! pos) h)")
    case False
    with Cons.prems show ?thesis by simp
  next
    case True
    let ?o = "sort (map (\<lambda>pos. ind ! pos) h)"
    let ?sg = "(if ?o \<noteq> map (\<lambda>pos. ind ! pos) h
                     then sign * signature (map (\<lambda>i. list_index (map (\<lambda>pos. ind ! pos) h) i + 1) ?o)
                     else sign)"
    have "?sg \<in> {1, - 1}" using Cons.prems(1) signature_cases[of "(map (\<lambda>i. list_index (map (\<lambda>pos. ind ! pos) h) i + 1) ?o)"]
      by auto
    moreover have "antisym_loop rest (write_back h ?o ind) ?sg = (sg, r)"
      using Cons.prems(2) True by (simp add: Let_def)
    ultimately show ?thesis using Cons.IH by blast
  qed
qed

lemma ordered_indices_comp_dict [simp]:
  "ordered_indices (s\<lparr>comp_dict := d\<rparr>) i = ordered_indices s i"
  by (simp add: ordered_indices_def check_indices_def)

lemma ordered_indices_sign:
  assumes "ordered_indices s i = Inr (sg, r)"
  shows "(sg = 0 \<and> r = None) \<or> (sg \<in> {1, - 1} \<and> r \<noteq> None)"
proof -
  from assms obtain ind where "antisym_loop (antisym s) (foldl sym_step ind (sym s)) 1 = (sg, r)"
    by (auto simp: ordered_indices_def split: sum.splits)
  then show ?thesis using antisym_loop_sign[of 1] by blast
qed

lemma ordered_indices_no_antisym:
  assumes "antisym s = []" "ordered_indices s i = Inr (sg, r)"
  shows "sg = 1"
  using assms by (auto simp: ordered_indices_def split: sum.splits)

text \<open>
  Claim C1 (read/write round trip with sign). For a store of the classes
  \<^verbatim>\<open>CompWithSym\<close>, \<^verbatim>\<open>CompFullySym\<close>, \<^verbatim>\<open>CompFullyAntiSym\<close> with a valid symmetry
  specification, an in-range index tuple \<open>i\<close> of canonical sign \<open>si \<noteq> 0\<close> and canonical
  key \<open>k\<close>, and a value \<open>v \<noteq> 0\<close>: \<^verbatim>\<open>set(i, v)\<close> succeeds, the entry stored under \<open>k\<close> is
  \<open>si * v\<close>, \<^verbatim>\<open>get(i)\<close> then returns \<open>v\<close>, and for every in-range tuple \<open>j\<close> with the same
  canonical key and sign \<open>sj\<close>, \<^verbatim>\<open>get(j)\<close> returns \<open>si * sj * v\<close>, the product \<open>si * sj\<close>
  being the relative parity of \<open>i\<close> and \<open>j\<close>. (\<^verbatim>\<open>KroneckerDelta\<close> rejects every
  assignment and is not among the three classes.)
\<close>

theorem set_get_round_trip:
  fixes s :: "'a::ring_1 store"
  assumes cl: "cls s \<in> {CompWithSym, CompFullySym, CompFullyAntiSym}"
    and wf: "wf_store s"
    and oi: "ordered_indices s i = Inr (si, Some k)"
    and v: "v \<noteq> 0"
  shows "\<exists>s'. setitem s i v = Inr s' \<and> getitem s' i = Inr v \<and>
           comp_dict s' = AList.update k (of_int si * v) (comp_dict s) \<and>
           (\<forall>j sj. ordered_indices s j = Inr (sj, Some k) \<longrightarrow>
                    getitem s' j = Inr (of_int (si * sj) * v))"
proof -
  from ordered_indices_sign[OF oi] have si: "si = 1 \<or> si = - 1" by auto
  let ?s' = "s\<lparr>comp_dict := AList.update k (of_int si * v) (comp_dict s)\<rparr>"
  have cls': "cls ?s' = cls s" by simp
  show ?thesis
  proof (cases "cls s = CompFullySym")
    case True
    with wf have na: "antisym s = []" by (simp add: wf_store_def)
    from ordered_indices_no_antisym[OF na oi] have si1: "si = 1" .
    have set: "setitem s i v = Inr ?s'"
      using True oi v si1 by (simp add: setitem_def CompFullySym_setitem_def)
    have get: "getitem ?s' j = Inr (of_int (si * sj) * v)"
      if "ordered_indices s j = Inr (sj, Some k)" for j sj
    proof -
      from ordered_indices_no_antisym[OF na that] have "sj = 1" .
      then show ?thesis using True that si1
        by (simp add: getitem_def CompFullySym_getitem_def has_key_def update_conv')
    qed
    from get[OF oi] si1 have "getitem ?s' i = Inr v" by simp
    with set get show ?thesis by auto
  next
    case False
    with cl have c: "cls s = CompWithSym \<or> cls s = CompFullyAntiSym" by auto
    have set: "setitem s i v = Inr ?s'"
      using c oi v si by (auto simp: setitem_def CompWithSym_setitem_def)
    have get: "getitem ?s' j = Inr (of_int (si * sj) * v)"
      if "ordered_indices s j = Inr (sj, Some k)" for j sj
    proof -
      from ordered_indices_sign[OF that] have "sj = 1 \<or> sj = - 1" by auto
      then show ?thesis using c that si
        by (auto simp: getitem_def CompWithSym_getitem_def has_key_def update_conv')
    qed
    from get[OF oi] si have "getitem ?s' i = Inr v" by auto
    with set get show ?thesis by auto
  qed
qed

theorem set_get_round_trip_witness:
  "wf_store ex_antisym \<and> ordered_indices ex_antisym [1, 0] = Inr (- 1, Some [0, 1]) \<and>
   (\<exists>s'. setitem ex_antisym [1, 0] 3 = Inr s' \<and> getitem s' [1, 0] = Inr 3 \<and>
         comp_dict s' = [([0, 1], - 3)] \<and> getitem s' [0, 1] = Inr (- 3))"
proof -
  have c: "cls ex_antisym \<in> {CompWithSym, CompFullySym, CompFullyAntiSym}"
    by (simp add: ex_antisym_def)
  have v: "(3::int) \<noteq> 0" by simp
  from set_get_round_trip[OF c ex_antisym_wf ex_oi10 v] obtain s' where
    s': "setitem ex_antisym [1, 0] 3 = Inr s'" "getitem s' [1, 0] = Inr 3"
      "comp_dict s' = AList.update [0, 1] (of_int (- 1) * 3) (comp_dict ex_antisym)"
      "\<forall>j sj. ordered_indices ex_antisym j = Inr (sj, Some [0, 1]) \<longrightarrow>
               getitem s' j = Inr (of_int (- 1 * sj) * 3)"
    by blast
  from s'(4) ex_oi01 have "getitem s' [0, 1] = Inr (of_int (- 1 * 1) * 3)" by blast
  moreover from s'(3) have "comp_dict s' = [([0, 1], - 3)]" by (simp add: ex_antisym_def)
  ultimately show ?thesis using s' ex_antisym_wf ex_oi10 by auto
qed

lemma valid_sym_disjoint:
  "valid_sym s \<Longrightarrow> g \<in> set (antisym s) \<Longrightarrow> p \<in> set g \<Longrightarrow> p \<notin> set (concat (sym s))"
  by (auto simp: valid_sym_def)

lemma ordered_indices_repeated:
  assumes "valid_sym s" "g \<in> set (antisym s)" "check_indices s t = Inr t"
    "p \<in> set g" "q \<in> set g" "p \<noteq> q" "t ! p = t ! q"
  shows "ordered_indices s t = Inr (0, None)"
proof -
  have "p \<notin> set (concat (sym s))" "q \<notin> set (concat (sym s))"
    using assms valid_sym_disjoint by blast+
  then have "foldl sym_step t (sym s) ! p = foldl sym_step t (sym s) ! q"
    using assms(7) by (simp add: sym_loop_nth_other)
  moreover from assms(1) have "distinct (concat (antisym s))" by (simp add: valid_sym_def)
  ultimately have "antisym_loop (antisym s) (foldl sym_step t (sym s)) 1 = (0, None)"
    using assms antisym_loop_repeated by blast
  then show ?thesis using assms(3) by (simp add: ordered_indices_def)
qed

text \<open>
  Claim C2 (antisymmetry zero law). For a well-formed store with an antisymmetric group
  \<open>g\<close> and an in-range index tuple \<open>t\<close> that has equal values at two different positions
  of \<open>g\<close>: \<^verbatim>\<open>get(t)\<close> returns the zero of the ring, \<^verbatim>\<open>set(t, v)\<close> with \<open>v \<noteq> 0\<close> raises
  the antisymmetry conflict (ValueError), and \<^verbatim>\<open>set(t, 0)\<close> is accepted and leaves the
  store as it is: the canonical key of such a tuple is \<^verbatim>\<open>None\<close>, under which nothing is
  stored, so there is no entry to delete.
\<close>

theorem antisymmetry_zero_law:
  fixes s :: "'a::ring_1 store"
  assumes wf: "wf_store s"
    and g: "g \<in> set (antisym s)"
    and t: "check_indices s t = Inr t"
    and pq: "p \<in> set g" "q \<in> set g" "p \<noteq> q" "t ! p = t ! q"
  shows "getitem s t = Inr 0 \<and>
         (\<forall>v. v \<noteq> 0 \<longrightarrow> setitem s t v = Inl AntisymmetryConflict) \<and>
         setitem s t 0 = Inr s"
proof -
  from wf have vs: "valid_sym s" by (simp add: wf_store_def)
  from ordered_indices_repeated[OF vs g t pq]
  have oi: "ordered_indices s t = Inr (0, None)" .
  from wf g have c: "cls s = CompWithSym \<or> cls s = CompFullyAntiSym"
    by (auto simp: wf_store_def split: pyclass.splits)
  from c oi show ?thesis
    by (auto simp: getitem_def setitem_def CompWithSym_getitem_def CompWithSym_setitem_def
        has_key_def)
qed

theorem antisymmetry_zero_law_witness:
  "wf_store ex_antisym \<and> check_indices ex_antisym [1, 1] = Inr [1, 1] \<and>
   getitem ex_antisym [1, 1] = Inr 0 \<and>
   setitem ex_antisym [1, 1] 5 = Inl AntisymmetryConflict \<and>
   setitem ex_antisym [1, 1] 0 = Inr ex_antisym"
proof -
  have g: "[0, 1] \<in> set (antisym ex_antisym)" by (simp add: ex_antisym_def)
  have t: "check_indices ex_antisym [1, 1] = Inr [1, 1]"
    by (simp add: check_indices_def ex_antisym_def)
  have pq: "(0::nat) \<in> set [0, 1]" "(1::nat) \<in> set [0, 1]" "(0::nat) \<noteq> 1"
    "[1, 1::int] ! 0 = [1, 1] ! 1" by simp_all
  from antisymmetry_zero_law[OF ex_antisym_wf g t pq] ex_antisym_wf t
  show ?thesis by simp
qed

subsection \<open>Contraction, the Kronecker delta, comparison\<close>

text \<open>
  Claim C4 (trace by self-contraction). On the plain store with the values
  \<open>[[1,2,3],[4,5,6],[7,8,9]]\<close>, \<^verbatim>\<open>self_contract(0,1)\<close> does not return \<open>15\<close>: it
  raises AttributeError at the read of \<^verbatim>\<open>self.manifold\<close>.
\<close>

theorem self_contract_fails:
  "self_contract2 ex_matrix 0 1 = Inl (AttributeError ''manifold'')"
  by (simp add: self_contract2_def Components_self_contract_def contract_checks_def
      get_manifold_def ex_matrix_def)

text \<open>
  Claim C6 (Kronecker delta). The constructor of \<^verbatim>\<open>KroneckerDelta\<close> raises TypeError
  for every frame, here one of length 3: it hands two arguments to an initialiser that
  needs three, so no delta with a unit diagonal is ever built.
\<close>

theorem KroneckerDelta_init_fails:
  "(KroneckerDelta_init [''e0'', ''e1'', ''e2''] :: error + int store) = Inl MissingArgument"
  by (simp add: KroneckerDelta_init_def)

text \<open>
  Claim C10 (comparison with a number). For every store \<open>c\<close>, \<^verbatim>\<open>c == 0\<close> returns
  \<^verbatim>\<open>c.is_zero()\<close> and \<^verbatim>\<open>c != 0\<close> its negation; for every integer \<open>n \<noteq> 0\<close> both
  \<^verbatim>\<open>c == n\<close> and \<^verbatim>\<open>c != n\<close> raise the TypeError
  "Cannot compare a set of components to a number".
\<close>

theorem eq_number:
  "eq c (Number 0) = Inr (is_zero c) \<and> ne c (Number 0) = Inr (\<not> is_zero c) \<and>
   (n \<noteq> 0 \<longrightarrow> eq c (Number n) = Inl CannotCompareToNumber \<and>
               ne c (Number n) = Inl CannotCompareToNumber)"
  by (simp add: eq_def ne_def)

theorem eq_number_witness:
  "eq ex_matrix (Number 0) = Inr False \<and> ne ex_matrix (Number 0) = Inr True \<and>
   eq ex_matrix (Number 1) = Inl CannotCompareToNumber \<and>
   ne ex_matrix (Number 1) = Inl CannotCompareToNumber"
proof -
  have "\<not> is_zero ex_matrix" by (simp add: is_zero_def ex_matrix_def)
  then show ?thesis using eq_number[of ex_matrix 1] by simp
qed

subsection \<open>Tensor product\<close>

lemma upt2: "[0..<2] = [0, Suc 0]" by (simp add: upt_rec)

text \<open>
  Claim C8 (tensor square of a vector), as amended. When both operands of the tensor
  product are one and the same object, a plain store (class \<^verbatim>\<open>Components\<close>) with a
  single index, the result is a \<^verbatim>\<open>CompFullySym\<close> store of two indices, symmetric in
  the positions \<open>(0,1)\<close>.
\<close>

theorem tensor_square_plain:
  assumes "cls (h a) = Components" "nid (h a) = 1"
  shows "\<exists>r. mul_objects h a a = Inr r \<and> cls r = CompFullySym \<and> nid r = 2 \<and>
             sym r = [[0, 1]] \<and> antisym r = []"
  using assms
  by (simp add: mul_objects_def mul_def Components_mul_def CompFullySym_init_def
      CompWithSym_init_def range_group_def groups_ok_def upt2)

theorem tensor_square_plain_witness:
  "cls (ex_heap 0) = Components \<and> nid (ex_heap 0) = 1 \<and>
   mul_objects ex_heap 0 0 =
     Inr \<lparr>cls = CompFullySym, frame = [''e0'', ''e1'', ''e2''], nid = 2, dim = 3, sindex = 0,
          output_formatter = None, sym = [[0, 1]], antisym = [],
          comp_dict = [([0, 0], 4), ([0, 2], 10), ([2, 0], 10), ([2, 2], 25)]\<rparr>"
proof -
  have h: "cls (ex_heap 0) = Components" "nid (ex_heap 0) = 1"
    by (simp_all add: ex_heap_def ex_vector_def)
  from tensor_square_plain[of ex_heap 0] h obtain r where
    r: "mul_objects ex_heap 0 0 = Inr r" "cls r = CompFullySym" "sym r = [[0, 1]]" by blast
  have "mul_objects ex_heap 0 0 =
     Inr \<lparr>cls = CompFullySym, frame = [''e0'', ''e1'', ''e2''], nid = 2, dim = 3, sindex = 0,
          output_formatter = None, sym = [[0, Suc 0]], antisym = [],
          comp_dict = [([0, 0], 4), ([0, 2], 10), ([2, 0], 10), ([2, 2], 25)]\<rparr>"
    by (simp add: mul_objects_def mul_def Components_mul_def CompFullySym_init_def
      CompWithSym_init_def range_group_def groups_ok_def ex_heap_def ex_vector_def
      tensor_items_def upt2)
  with r h show ?thesis by simp
qed

text \<open>
  Claim C8 as stated fails for a single-index store of class \<^verbatim>\<open>CompWithSym\<close>:
  \<^verbatim>\<open>CompWithSym.__mul__\<close> has no test for identical operands, and the square of such a
  store with itself is a \<^verbatim>\<open>CompWithSym\<close> store without any symmetry.
\<close>

theorem tensor_square_withsym_counterexample:
  "mul_objects ex_heap 1 1 =
     Inr \<lparr>cls = CompWithSym, frame = [''e0'', ''e1'', ''e2''], nid = 2, dim = 3, sindex = 0,
          output_formatter = None, sym = [], antisym = [],
          comp_dict = [([0, 0], 4), ([0, 2], 10), ([2, 0], 10), ([2, 2], 25)]\<rparr>"
  by (simp add: mul_objects_def mul_def CompWithSym_mul_def CompFullySym_init_def
      CompWithSym_init_def range_group_def groups_ok_def ex_heap_def ex_vector_def
      ex_vector_withsym_def tensor_items_def shift_groups_def)


subsection \<open>Index generators\<close>

lemma odometer_tail:
  "pre \<noteq> [] \<Longrightarrow>
   foldl (odometer_pos si imax) (pre @ t, 1) (rev [length pre..<length pre + length t]) =
     (pre @ fst (carry si imax t), snd (carry si imax t))"
proof (induction t arbitrary: pre)
  case Nil
  then show ?case by simp
next
  case (Cons x t)
  have up: "[length pre..<length pre + length (x # t)] =
        length pre # [length (pre @ [x])..<length (pre @ [x]) + length t]"
    by (simp add: upt_rec)
  from Cons.prems have ne: "pre @ [x] \<noteq> []" "length pre \<noteq> 0" by simp_all
  have IH: "foldl (odometer_pos si imax) ((pre @ [x]) @ t, 1)
      (rev [length (pre @ [x])..<length (pre @ [x]) + length t]) =
     ((pre @ [x]) @ fst (carry si imax t), snd (carry si imax t))"
    using Cons.IH[OF ne(1)] .
  let ?f = "odometer_pos si imax"
  let ?c = "carry si imax t"
  have "foldl ?f (pre @ x # t, 1) (rev [length pre..<length pre + length (x # t)]) =
        ?f (foldl ?f ((pre @ [x]) @ t, 1)
              (rev [length (pre @ [x])..<length (pre @ [x]) + length t])) (length pre)"
    unfolding up by simp
  also have "\<dots> = ?f ((pre @ [x]) @ fst ?c, snd ?c) (length pre)"
    by (simp only: IH)
  also have "\<dots> = (pre @ fst (carry si imax (x # t)), snd (carry si imax (x # t)))"
    using ne(2) by (simp add: odometer_pos_def digit_def Let_def)
  finally show ?case .
qed

lemma odometer_step_Cons:
  "odometer_step si imax (Suc (length t)) (x # t) =
     (let c = carry si imax t in
      if x \<noteq> imax then (x + snd c) # fst c
      else if snd c = 1 then (imax + 1) # fst c
      else x # fst c)"
proof -
  let ?f = "odometer_pos si imax"
  let ?c = "carry si imax t"
  have up: "[0..<Suc (length t)] = 0 # [length [x]..<length [x] + length t]"
    by (simp add: upt_rec)
  have tl: "foldl ?f ([x] @ t, 1) (rev [length [x]..<length [x] + length t]) =
     ([x] @ fst ?c, snd ?c)"
    by (rule odometer_tail) simp
  have "foldl ?f (x # t, 1) (rev [0..<Suc (length t)]) =
        ?f (foldl ?f ([x] @ t, 1) (rev [length [x]..<length [x] + length t])) 0"
    unfolding up by simp
  also have "\<dots> = ?f ([x] @ fst ?c, snd ?c) 0"
    by (simp only: tl)
  finally show ?thesis
    by (simp add: odometer_step_def odometer_pos_def Let_def)
qed

lemma carry_all_max: "carry si imax (replicate m imax) = (replicate m si, 1)"
  by (induction m) (simp_all add: digit_def Let_def)

lemma carry_Cons_no_carry:
  "carry si imax a = (b, 0) \<Longrightarrow> carry si imax (x # a) = (x # b, 0)"
  by (simp add: digit_def Let_def)

lemma carry_Cons_carry:
  "carry si imax a = (b, 1) \<Longrightarrow> x \<noteq> imax \<Longrightarrow> carry si imax (x # a) = ((x + 1) # b, 0)"
  by (simp add: digit_def Let_def)

lemma blocks_rec: "lo \<le> hi \<Longrightarrow> blocks T lo hi = map (Cons lo) T @ blocks T (lo + 1) hi"
  by (simp add: blocks_def upto_rec1[of lo hi])

lemma blocks_empty: "hi < lo \<Longrightarrow> blocks T lo hi = []"
  by (simp add: blocks_def)

lemma blocks_chain:
  assumes T: "T \<noteq> []" "successively (\<lambda>a b. carry si imax a = (b, 0)) T"
    "carry si imax (last T) = (hd T, 1)"
  shows "lo \<le> imax \<Longrightarrow>
     blocks T lo imax \<noteq> [] \<and> hd (blocks T lo imax) = lo # hd T \<and>
     last (blocks T lo imax) = imax # last T \<and>
     successively (\<lambda>a b. carry si imax a = (b, 0)) (blocks T lo imax)"
proof (induction "nat (imax - lo)" arbitrary: lo)
  case 0
  then have lo: "lo = imax" by simp
  have b: "blocks T lo imax = map (Cons imax) T"
    using lo by (simp add: blocks_rec blocks_empty)
  have "successively (\<lambda>a b. carry si imax a = (b, 0)) (map (Cons imax) T)"
    unfolding successively_map
    by (rule successively_mono[OF T(2)]) (rule carry_Cons_no_carry)
  with b T(1) lo show ?case by (simp add: hd_map last_map)
next
  case (Suc d)
  then have lt: "lo < imax" and d: "d = nat (imax - (lo + 1))" and le: "lo + 1 \<le> imax"
    by linarith+
  from Suc.hyps(1)[OF d le] have IH:
    "blocks T (lo + 1) imax \<noteq> []" "hd (blocks T (lo + 1) imax) = (lo + 1) # hd T"
    "last (blocks T (lo + 1) imax) = imax # last T"
    "successively (\<lambda>a b. carry si imax a = (b, 0)) (blocks T (lo + 1) imax)"
    by simp_all
  have b: "blocks T lo imax = map (Cons lo) T @ blocks T (lo + 1) imax"
    using lt by (simp add: blocks_rec)
  have m: "successively (\<lambda>a b. carry si imax a = (b, 0)) (map (Cons lo) T)"
    unfolding successively_map
    by (rule successively_mono[OF T(2)]) (rule carry_Cons_no_carry)
  have j: "carry si imax (last (map (Cons lo) T)) = (hd (blocks T (lo + 1) imax), 0)"
    using carry_Cons_carry[OF T(3), of lo] T(1) lt IH(2)
    by (simp add: last_map del: carry.simps)
  show ?case
    unfolding b using T(1) IH m j by (simp add: successively_append_iff hd_map)
qed

lemma tuples_Suc: "tuples si imax (Suc m) = blocks (tuples si imax m) si imax"
  by (simp add: tuples_def blocks_def)

lemma tuples_chain:
  assumes "si \<le> imax"
  shows "tuples si imax m \<noteq> [] \<and> hd (tuples si imax m) = replicate m si \<and>
     last (tuples si imax m) = replicate m imax \<and>
     successively (\<lambda>a b. carry si imax a = (b, 0)) (tuples si imax m)"
proof (induction m)
  case 0
  show ?case by (simp add: tuples_def)
next
  case (Suc m)
  have c: "carry si imax (last (tuples si imax m)) = (hd (tuples si imax m), 1)"
    using Suc by (simp add: carry_all_max)
  from blocks_chain[of "tuples si imax m" si imax si, OF _ _ c assms] Suc
  show ?case by (simp add: tuples_Suc)
qed

lemma tuples_length: "a \<in> set (tuples si imax m) \<Longrightarrow> length a = m"
  unfolding tuples_def by (induction m arbitrary: a) auto

lemma tuples_range: "a \<in> set (tuples si imax m) \<Longrightarrow> x \<in> set a \<Longrightarrow> si \<le> x \<and> x \<le> imax"
  unfolding tuples_def by (induction m arbitrary: a) auto

lemma step_of_carry:
  assumes "length a = Suc m" "carry si imax a = (b, 0)"
  shows "odometer_step si imax (Suc m) a = b"
proof -
  from assms(1) obtain x t where a: "a = x # t" "length t = m" by (cases a) auto
  show ?thesis
    using assms(2) odometer_step_Cons[of si imax t x] unfolding a
    by (auto simp: digit_def Let_def split: if_splits)
qed

lemma tuples_step_chain:
  assumes "si \<le> imax"
  shows "successively (\<lambda>a b. odometer_step si imax (Suc m) a = b) (tuples si imax (Suc m))"
proof -
  from tuples_chain[OF assms, of "Suc m"]
  have "successively (\<lambda>a b. carry si imax a = (b, 0)) (tuples si imax (Suc m))" by simp
  then show ?thesis
    by (rule successively_mono) (auto intro: step_of_carry dest: tuples_length)
qed

lemma step_last:
  "odometer_step si imax (Suc m) (replicate (Suc m) imax) = (imax + 1) # replicate m si"
  using odometer_step_Cons[of si imax "replicate m imax" imax]
  by (simp add: carry_all_max)

lemma index_loop_stop: "index_loop P si imax n e e acc = Some acc"
  by (subst index_loop.simps) simp

lemma index_loop_chain:
  "xs \<noteq> [] \<Longrightarrow> successively (\<lambda>a b. odometer_step si imax n a = b) xs \<Longrightarrow>
   ind_end \<notin> set xs \<Longrightarrow> odometer_step si imax n (last xs) = ind_end \<Longrightarrow>
   index_loop P si imax n (hd xs) ind_end acc = Some (acc @ filter P xs)"
proof (induction xs arbitrary: acc)
  case Nil
  then show ?case by simp
next
  case (Cons x xs)
  show ?case
  proof (cases xs)
    case Nil
    with Cons.prems show ?thesis
      by (simp add: index_loop.simps[of P si imax n x] index_loop.simps[of P si imax n ind_end])
  next
    case (Cons y ys)
    with Cons.prems have s: "odometer_step si imax n x = hd xs" "xs \<noteq> []"
      "successively (\<lambda>a b. odometer_step si imax n a = b) xs" "ind_end \<notin> set xs"
      "odometer_step si imax n (last xs) = ind_end" "x \<noteq> ind_end"
      by auto
    from Cons.IH[OF s(2) s(3) s(4) s(5)] s(1) s(6)
    show ?thesis
      by (simp add: index_loop.simps[of P si imax n x])
  qed
qed

lemma index_loop_tuples:
  assumes "si \<le> imax + 1"
  shows "index_loop P si imax (Suc m) (replicate (Suc m) si)
           ((replicate (Suc m) si)[0 := imax + 1]) []
     = Some (filter P (tuples si imax (Suc m)))"
proof (cases "si \<le> imax")
  case True
  let ?T = "tuples si imax (Suc m)"
  let ?e = "(imax + 1) # replicate m si"
  from tuples_chain[OF True, of "Suc m"] have T: "?T \<noteq> []" "hd ?T = replicate (Suc m) si"
    "last ?T = replicate (Suc m) imax" by simp_all
  have "?e \<notin> set ?T" using tuples_range[of ?e si imax "Suc m" "imax + 1"] by auto
  moreover have "odometer_step si imax (Suc m) (last ?T) = ?e"
    unfolding T(3) by (rule step_last)
  ultimately have "index_loop P si imax (Suc m) (hd ?T) ?e [] = Some ([] @ filter P ?T)"
    using T(1) tuples_step_chain[OF True, of m] by (intro index_loop_chain)
  then show ?thesis using T(2) by simp
next
  case False
  with assms have si: "si = imax + 1" by simp
  then have e: "[si..imax] = []" by simp
  have "tuples si imax (Suc m) = []" by (simp add: tuples_def e)
  then show ?thesis
    using si by (simp add: index_loop_stop)
qed

lemma run_generator_tuples:
  assumes "nid s \<noteq> 0"
  shows "run_generator P s =
     Inr (filter P (tuples (sindex s) (int (dim s) - 1 + sindex s) (nid s)))"
proof -
  from assms obtain m where m: "nid s = Suc m" by (cases "nid s") auto
  have "sindex s \<le> (int (dim s) - 1 + sindex s) + 1" by simp
  from index_loop_tuples[OF this, of P m] show ?thesis
    by (simp add: run_generator_def m Let_def)
qed

lemma filter_upto_ge: "lo \<le> x \<Longrightarrow> filter (\<lambda>a. x \<le> a) [lo..hi] = [x..hi]"
proof (induction "nat (x - lo)" arbitrary: lo)
  case 0
  then have "lo = x" by simp
  then show ?case by (simp add: filter_id_conv)
next
  case (Suc d)
  then have lt: "lo < x" and d: "d = nat (x - (lo + 1))" and le: "lo + 1 \<le> x" by linarith+
  show ?case
  proof (cases "lo \<le> hi")
    case True
    then show ?thesis using lt Suc.hyps(1)[OF d le] by (simp add: upto_rec1[of lo hi])
  next
    case False
    with lt show ?thesis by simp
  qed
qed

lemma concat_map_filter:
  "concat (map f (filter Q xs)) = concat (map (\<lambda>a. if Q a then f a else []) xs)"
  by (induction xs) auto

lemma tuples_0 [simp]: "tuples lo hi 0 = [[]]"
  by (simp add: tuples_def)

lemma tuples_Suc_concat:
  "tuples lo hi (Suc n) = concat (map (\<lambda>a. map (Cons a) (tuples lo hi n)) [lo..hi])"
  by (simp add: tuples_def)

lemma tuples_filter_ge:
  "lo \<le> x \<Longrightarrow> filter (\<lambda>t. \<forall>y\<in>set t. x \<le> y) (tuples lo hi n) = tuples x hi n"
proof (induction n)
  case 0
  then show ?case by simp
next
  case (Suc n)
  have blk: "filter (\<lambda>t. \<forall>y\<in>set t. x \<le> y) (map (Cons a) (tuples lo hi n)) =
        (if x \<le> a then map (Cons a) (tuples x hi n) else [])" for a
  proof (cases "x \<le> a")
    case True
    then show ?thesis using Suc.IH[OF Suc.prems] by (simp add: filter_map comp_def)
  next
    case False
    then show ?thesis by (simp add: filter_map comp_def)
  qed
  have "filter (\<lambda>t. \<forall>y\<in>set t. x \<le> y) (tuples lo hi (Suc n)) =
        concat (map (\<lambda>a. if x \<le> a then map (Cons a) (tuples x hi n) else []) [lo..hi])"
    by (simp only: tuples_Suc_concat filter_concat map_map comp_def blk)
  also have "\<dots> = concat (map (\<lambda>a. map (Cons a) (tuples x hi n)) (filter (\<lambda>a. x \<le> a) [lo..hi]))"
    by (simp add: concat_map_filter)
  also have "\<dots> = tuples x hi (Suc n)"
    using Suc.prems by (simp add: filter_upto_ge tuples_Suc_concat)
  finally show ?case .
qed

lemma hockey_stick_weak:
  "sum_list (map (\<lambda>a. (nat (hi - a + 1) + n - 1) choose n) [lo..hi]) =
     (nat (hi - lo + 1) + n) choose Suc n"
proof (induction "nat (hi - lo + 1)" arbitrary: lo)
  case 0
  then have "hi < lo" by simp
  then show ?case using 0 by simp
next
  case (Suc d)
  then have le: "lo \<le> hi" and d: "d = nat (hi - (lo + 1) + 1)" by linarith+
  have d': "nat (hi - lo + 1) = Suc d" using Suc.hyps(2) by simp
  have d'': "nat (hi - lo) = d" using d by simp
  show ?case
    using Suc.hyps(1)[OF d] by (simp add: upto_rec1[OF le] d' d'')
qed

lemma count_sorted_tuples:
  "length (filter sorted (tuples lo hi n)) = (nat (hi - lo + 1) + n - 1) choose n"
proof (induction n arbitrary: lo)
  case 0
  show ?case by simp
next
  case (Suc n)
  have blk: "length (filter sorted (map (Cons a) (tuples lo hi n))) =
        (nat (hi - a + 1) + n - 1) choose n" if "a \<in> set [lo..hi]" for a
  proof -
    from that have le: "lo \<le> a" by simp
    have "filter (\<lambda>t. sorted (a # t)) (tuples lo hi n) =
          filter sorted (filter (\<lambda>t. \<forall>y\<in>set t. a \<le> y) (tuples lo hi n))"
      by (simp add: conj_commute)
    also have "\<dots> = filter sorted (tuples a hi n)"
      by (simp only: tuples_filter_ge[OF le])
    finally show ?thesis using Suc.IH[of a] by (simp add: filter_map comp_def)
  qed
  have "length (filter sorted (tuples lo hi (Suc n))) =
        sum_list (map (\<lambda>a. length (filter sorted (map (Cons a) (tuples lo hi n)))) [lo..hi])"
    by (simp add: tuples_Suc_concat filter_concat length_concat comp_def)
  also have "\<dots> = sum_list (map (\<lambda>a. (nat (hi - a + 1) + n - 1) choose n) [lo..hi])"
    by (rule arg_cong[where f = sum_list], rule map_cong[OF refl]) (rule blk)
  also have "\<dots> = (nat (hi - lo + 1) + Suc n - 1) choose Suc n"
    using hockey_stick_weak[of hi n lo] by simp
  finally show ?case .
qed

lemma tuples_filter_gt:
  "lo \<le> x \<Longrightarrow> filter (\<lambda>t. \<forall>y\<in>set t. x < y) (tuples lo hi n) = tuples (x + 1) hi n"
proof -
  assume "lo \<le> x"
  then have "lo \<le> x + 1" by simp
  from tuples_filter_ge[OF this, of hi n] show ?thesis by (simp add: zless_iff_Suc_zadd add1_zle_eq)
qed

lemma hockey_stick_strict:
  "sum_list (map (\<lambda>a. nat (hi - a) choose n) [lo..hi]) = nat (hi - lo + 1) choose Suc n"
proof (induction "nat (hi - lo + 1)" arbitrary: lo)
  case 0
  then have "hi < lo" by simp
  then show ?case using 0 by simp
next
  case (Suc d)
  then have le: "lo \<le> hi" and d: "d = nat (hi - (lo + 1) + 1)" by linarith+
  have d': "nat (hi - lo + 1) = Suc d" using Suc.hyps(2) by simp
  have d'': "nat (hi - lo) = d" using d by simp
  show ?case
    using Suc.hyps(1)[OF d] by (simp add: upto_rec1[OF le] d' d'')
qed

lemma count_strict_tuples:
  "length (filter (sorted_wrt (<)) (tuples lo hi n)) = nat (hi - lo + 1) choose n"
proof (induction n arbitrary: lo)
  case 0
  show ?case by simp
next
  case (Suc n)
  have blk: "length (filter (sorted_wrt (<)) (map (Cons a) (tuples lo hi n))) =
        nat (hi - a) choose n" if "a \<in> set [lo..hi]" for a
  proof -
    from that have le: "lo \<le> a" by simp
    have "filter (\<lambda>t. sorted_wrt (<) (a # t)) (tuples lo hi n) =
          filter (sorted_wrt (<)) (filter (\<lambda>t. \<forall>y\<in>set t. a < y) (tuples lo hi n))"
      by (simp add: conj_commute)
    also have "\<dots> = filter (sorted_wrt (<)) (tuples (a + 1) hi n)"
      by (simp only: tuples_filter_gt[OF le])
    finally show ?thesis using Suc.IH[of "a + 1"] by (simp add: filter_map comp_def)
  qed
  have "length (filter (sorted_wrt (<)) (tuples lo hi (Suc n))) =
        sum_list (map (\<lambda>a. length (filter (sorted_wrt (<)) (map (Cons a) (tuples lo hi n)))) [lo..hi])"
    by (simp add: tuples_Suc_concat filter_concat length_concat comp_def)
  also have "\<dots> = sum_list (map (\<lambda>a. nat (hi - a) choose n) [lo..hi])"
    by (rule arg_cong[where f = sum_list], rule map_cong[OF refl]) (rule blk)
  also have "\<dots> = nat (hi - lo + 1) choose Suc n"
    using hockey_stick_strict[of hi n lo] by simp
  finally show ?case .
qed

lemma length_tuples: "length (tuples lo hi n) = nat (hi - lo + 1) ^ n"
  by (induction n) (simp_all add: tuples_Suc_concat length_concat comp_def sum_list_triv)

lemma sym_ordered_full:
  "length ind = n \<Longrightarrow> sym_ordered ind [0..<n] \<longleftrightarrow> sorted ind"
  by (auto simp: sym_ordered_def list_all_iff sorted_iff_nth_Suc not_less)

lemma antisym_ordered_full:
  "length ind = n \<Longrightarrow> antisym_ordered ind [0..<n] \<longleftrightarrow> sorted_wrt (<) ind"
  by (auto simp: antisym_ordered_def list_all_iff sorted_wrt_iff_nth_Suc_transp not_le)

lemma is_ordered_fullysym:
  assumes "wf_store s" "cls s = CompFullySym" "nid s \<noteq> 0" "length ind = nid s"
  shows "is_ordered s ind \<longleftrightarrow> sorted ind"
  using assms sym_ordered_full[of ind "nid s"]
  by (simp add: is_ordered_def wf_store_def range_group_def)

lemma is_ordered_fullyantisym:
  assumes "wf_store s" "cls s = CompFullyAntiSym" "nid s \<noteq> 0" "length ind = nid s"
  shows "is_ordered s ind \<longleftrightarrow> sorted_wrt (<) ind"
  using assms antisym_ordered_full[of ind "nid s"]
  by (simp add: is_ordered_def wf_store_def range_group_def)

text \<open>
  Claim C9 (index generation counts), as amended. For a store with at least one index
  the full generator returns, in this order, all tuples over the index range (the first
  index varies slowest), \<open>dim ^ nid\<close> of them. For a fully symmetric store the
  non-redundant generator returns the ascending tuples among them,
  \<open>C(dim + nid - 1, nid)\<close> in number, and for a fully antisymmetric store the strictly
  ascending ones, \<open>C(dim, nid)\<close> in number (none when \<open>nid > dim\<close>).
\<close>

theorem index_generation_counts:
  fixes s :: "'a store"
  assumes n: "1 \<le> nid s"
  defines "all \<equiv> product_lists (replicate (nid s) [sindex s..sindex s + int (dim s) - 1])"
  shows "index_generator s = Inr all \<and> length all = dim s ^ nid s \<and>
     (wf_store s \<and> cls s = CompFullySym \<longrightarrow>
        non_redundant_index_generator s = Inr (filter sorted all) \<and>
        length (filter sorted all) = (dim s + nid s - 1) choose nid s) \<and>
     (wf_store s \<and> cls s = CompFullyAntiSym \<longrightarrow>
        non_redundant_index_generator s = Inr (filter (sorted_wrt (<)) all) \<and>
        length (filter (sorted_wrt (<)) all) = dim s choose nid s)"
proof -
  let ?si = "sindex s" and ?imax = "int (dim s) - 1 + sindex s"
  have all: "all = tuples ?si ?imax (nid s)"
    by (simp add: all_def tuples_def algebra_simps)
  have d: "nat (?imax - ?si + 1) = dim s" by simp
  from n have n0: "nid s \<noteq> 0" by simp
  have g: "index_generator s = Inr all"
    unfolding all index_generator_def by (simp add: run_generator_tuples[OF n0])
  have l: "length all = dim s ^ nid s"
    unfolding all using length_tuples[of ?si ?imax "nid s"] by (simp only: d)
  have sy: "non_redundant_index_generator s = Inr (filter sorted all) \<and>
        length (filter sorted all) = (dim s + nid s - 1) choose nid s"
    if "wf_store s" "cls s = CompFullySym"
  proof -
    have "filter (is_ordered s) (tuples ?si ?imax (nid s)) = filter sorted (tuples ?si ?imax (nid s))"
      by (rule filter_cong[OF refl]) (simp add: is_ordered_fullysym[OF that n0] tuples_length)
    then have "non_redundant_index_generator s = Inr (filter sorted all)"
      unfolding all using that(2)
      by (simp add: non_redundant_index_generator_def run_generator_tuples[OF n0])
    moreover have "length (filter sorted all) = (dim s + nid s - 1) choose nid s"
      unfolding all using count_sorted_tuples[of ?si ?imax "nid s"] by (simp only: d)
    ultimately show ?thesis by simp
  qed
  have asy: "non_redundant_index_generator s = Inr (filter (sorted_wrt (<)) all) \<and>
        length (filter (sorted_wrt (<)) all) = dim s choose nid s"
    if "wf_store s" "cls s = CompFullyAntiSym"
  proof -
    have "filter (is_ordered s) (tuples ?si ?imax (nid s)) =
          filter (sorted_wrt (<)) (tuples ?si ?imax (nid s))"
      by (rule filter_cong[OF refl]) (simp add: is_ordered_fullyantisym[OF that n0] tuples_length)
    then have "non_redundant_index_generator s = Inr (filter (sorted_wrt (<)) all)"
      unfolding all using that(2)
      by (simp add: non_redundant_index_generator_def run_generator_tuples[OF n0])
    moreover have "length (filter (sorted_wrt (<)) all) = dim s choose nid s"
      unfolding all using count_strict_tuples[of ?si ?imax "nid s"] by (simp only: d)
    ultimately show ?thesis by simp
  qed
  from g l sy asy show ?thesis by blast
qed

lemma all_2_3: "product_lists (replicate 2 [0..2::int]) =
  [[0, 0], [0, 1], [0, 2], [1, 0], [1, 1], [1, 2], [2, 0], [2, 1], [2, 2]]"
  by (simp add: numeral_2_eq_2 upto_rec1)

theorem index_generation_counts_witness:
  "index_generator ex_fullysym =
     Inr [[0, 0], [0, 1], [0, 2], [1, 0], [1, 1], [1, 2], [2, 0], [2, 1], [2, 2]] \<and>
   non_redundant_index_generator ex_fullysym =
     Inr [[0, 0], [0, 1], [0, 2], [1, 1], [1, 2], [2, 2]] \<and>
   non_redundant_index_generator ex_fullyantisym = Inr [[0, 1], [0, 2], [1, 2]]"
proof -
  have s: "1 \<le> nid ex_fullysym" "wf_store ex_fullysym" "cls ex_fullysym = CompFullySym"
    by (simp_all add: ex_fullysym_def wf_store_def valid_sym_def groups_ok_def range_group_def upt2)
  have a: "1 \<le> nid ex_fullyantisym" "wf_store ex_fullyantisym"
    "cls ex_fullyantisym = CompFullyAntiSym"
    by (simp_all add: ex_fullyantisym_def wf_store_def valid_sym_def groups_ok_def
        range_group_def upt2)
  have ps: "product_lists (replicate (nid ex_fullysym)
              [sindex ex_fullysym..sindex ex_fullysym + int (dim ex_fullysym) - 1]) =
     [[0, 0], [0, 1], [0, 2], [1, 0], [1, 1], [1, 2], [2, 0], [2, 1], [2, 2]]"
    using all_2_3 by (simp add: ex_fullysym_def)
  have pa: "product_lists (replicate (nid ex_fullyantisym)
              [sindex ex_fullyantisym..sindex ex_fullyantisym + int (dim ex_fullyantisym) - 1]) =
     [[0, 0], [0, 1], [0, 2], [1, 0], [1, 1], [1, 2], [2, 0], [2, 1], [2, 2]]"
    using all_2_3 by (simp add: ex_fullyantisym_def)
  from index_generation_counts[OF s(1)] s(2,3) index_generation_counts[OF a(1)] a(2,3)
  show ?thesis unfolding ps pa by simp
qed

text \<open>
  Claim C9 as stated fails for \<open>nid = 0\<close>: the generator of a store without indices
  raises IndexError at \<^verbatim>\<open>ind_end[0] = imax+1\<close> and yields no tuple, where the claim
  has \<open>dim ^ 0 = 1\<close>.
\<close>

theorem index_generator_no_indices_counterexample:
  "index_generator ex_scalar = Inl EmptyListAssignment"
  by (simp add: index_generator_def run_generator_def ex_scalar_def Components_init_def)

subsection \<open>No zero entries\<close>
















































subsection \<open>Addition of stores with different symmetries\<close>








lemma check_indices_comp_dict [simp]:
  "check_indices (s\<lparr>comp_dict := d\<rparr>) i = check_indices s i"
  by (simp add: check_indices_def)

lemma canonical_comp_dict [simp]: "canonical (r\<lparr>comp_dict := d\<rparr>) ind = canonical r ind"
  by (simp add: canonical_def split: pyclass.splits)





lemma set_common_positions [simp]: "set (common_positions i h) = set i \<inter> set h"
  by (auto simp: common_positions_def)

lemma distinct_common_positions [simp]: "distinct (common_positions i h)"
  by (simp add: common_positions_def)

lemma length_common_positions: "length (common_positions i h) = card (set i \<inter> set h)"
  using distinct_card[OF distinct_common_positions, of i h] by simp








lemma tuples_check:
  assumes "ind \<in> set (tuples (sindex r) (int (dim r) - 1 + sindex r) (nid r))"
  shows "check_indices r ind = Inr ind"
proof -
  have "\<not> (x < sindex r \<or> x > int (dim r) - 1 + sindex r)" if "x \<in> set ind" for x
    using tuples_range[OF assms that] by linarith
  then show ?thesis
    using tuples_length[OF assms] by (simp add: check_indices_def list_ex_iff)
qed







lemma is_ordered_comp_dict [simp]: "is_ordered (r\<lparr>comp_dict := d\<rparr>) = is_ordered r"
  by (rule ext) (simp add: is_ordered_def)

lemma generator_comp_dict [simp]:
  "non_redundant_index_generator (r\<lparr>comp_dict := d\<rparr>) = non_redundant_index_generator r"
  by (simp add: non_redundant_index_generator_def index_generator_def run_generator_def
      Let_def split: pyclass.splits)











subsection \<open>Symmetrization against an existing antisymmetry\<close>

lemma interfere_two:
  assumes "g \<in> set gs" "a \<in> set pos" "b \<in> set pos" "a \<noteq> b" "a \<in> set g" "b \<in> set g"
  shows "interfere pos gs = None"
  using assms(1)
proof (induction gs)
  case Nil
  then show ?case by simp
next
  case (Cons h gs)
  show ?case
  proof (cases "length (common_positions pos h) > 1")
    case True
    then show ?thesis by (simp add: Let_def)
  next
    case False
    have "g \<noteq> h"
    proof
      assume "g = h"
      with assms have "{a, b} \<subseteq> set pos \<inter> set h" by auto
      then have "card {a, b} \<le> card (set pos \<inter> set h)" by (intro card_mono) auto
      with assms(4) have "2 \<le> length (common_positions pos h)"
        by (simp add: length_common_positions)
      with False show False by simp
    qed
    with Cons.prems have "g \<in> set gs" by simp
    from Cons.IH[OF this] False show ?thesis by (simp add: Let_def)
  qed
qed

lemma not_inside_other_kind:
  assumes "distinct (concat gs @ concat hs)" "g \<in> set gs" "a \<in> set g" "a \<in> set pos"
  shows "\<not> list_ex (\<lambda>h. list_all (\<lambda>p. p \<in> set h) pos) hs"
proof
  assume "list_ex (\<lambda>h. list_all (\<lambda>p. p \<in> set h) pos) hs"
  then obtain h where h: "h \<in> set hs" "\<forall>p \<in> set pos. p \<in> set h"
    by (auto simp: list_ex_iff list_all_iff)
  with assms(4) have "a \<in> set (concat hs)" by auto
  moreover from assms(2,3) have "a \<in> set (concat gs)" by auto
  ultimately show False using assms(1) by auto
qed

lemma full_init_ok:
  assumes "2 \<le> n"
  shows "CompWithSym_init c fr n si fmt (range_group n) [] =
           Inr \<lparr>cls = c, frame = fr, nid = n, dim = length fr, sindex = si,
                output_formatter = fmt, sym = [[0..<n]], antisym = [], comp_dict = []\<rparr>"
    and "CompWithSym_init c fr n si fmt [] (range_group n) =
           Inr \<lparr>cls = c, frame = fr, nid = n, dim = length fr, sindex = si,
                output_formatter = fmt, sym = [], antisym = [[0..<n]], comp_dict = []\<rparr>"
  using assms by (simp_all add: CompWithSym_init_def range_group_def groups_ok_def list_all_iff)

lemma empty_store_zero:
  fixes r :: "'a::field store"
  assumes "comp_dict r = []"
  shows "is_zero r" "eq r (Number 0) = Inr True"
    "check_indices r ind = Inr ind \<Longrightarrow> getitem r ind = Inr 0"
proof -
  show z: "is_zero r" using assms by (simp add: is_zero_def)
  then show "eq r (Number 0) = Inr True" by (simp add: eq_def)
  assume c: "check_indices r ind = Inr ind"
  obtain sg k where o: "ordered_indices r ind = Inr (sg, k)"
    using c by (cases "antisym_loop (antisym r) (foldl sym_step ind (sym r)) 1")
      (simp add: ordered_indices_def)
  have h: "\<not> has_key k (comp_dict r)" using assms by (simp add: has_key_def split: option.splits)
  have 1: "Components_getitem r ind = Inr 0"
    using c assms by (simp add: Components_getitem_def)
  have 2: "CompWithSym_getitem r ind = Inr 0"
    using o h by (simp add: CompWithSym_getitem_def)
  have 3: "CompFullySym_getitem r ind = Inr 0"
    using o h by (simp add: CompFullySym_getitem_def)
  show "getitem r ind = Inr 0" using 1 2 3 by (cases "cls r") (simp_all add: getitem_def)
qed

text \<open>
  Claim C7 (symmetrization and antisymmetrization are orthogonal). For a well-formed
  store and accepted positions \<open>pos\<close> (all positions when none are given), two different
  positions \<open>a\<close>, \<open>b\<close> of which lie in one group \<open>g\<close>: if \<open>g\<close> is an antisymmetric group
  of the store, \<^verbatim>\<open>symmetrize(pos)\<close> returns a new \<^verbatim>\<open>CompFullySym\<close> store with the frame,
  number of indices and start index of the operand and an empty dictionary, which
  compares equal to \<open>0\<close> and reads \<open>0\<close> at every in-range tuple; if \<open>g\<close> is a symmetric
  group, \<^verbatim>\<open>antisymmetrize(pos)\<close> returns such a \<^verbatim>\<open>CompFullyAntiSym\<close> store.
\<close>

theorem symmetrize_antisymmetrize_orthogonal:
  fixes s :: "'a::field store"
  assumes wf: "wf_store s"
    and pos: "given_positions s pos_arg = Inr pos"
    and ab: "a \<in> set pos" "b \<in> set pos" "a \<noteq> b" "a \<in> set g" "b \<in> set g"
  shows "(g \<in> set (antisym s) \<longrightarrow>
           (\<exists>r. symmetrize s pos_arg = Inr r \<and> cls r = CompFullySym \<and> frame r = frame s \<and>
                nid r = nid s \<and> dim r = dim s \<and> sindex r = sindex s \<and> comp_dict r = [] \<and>
                eq r (Number 0) = Inr True \<and>
                (\<forall>ind. check_indices r ind = Inr ind \<longrightarrow> getitem r ind = Inr 0))) \<and>
         (g \<in> set (sym s) \<longrightarrow>
           (\<exists>r. antisymmetrize s pos_arg = Inr r \<and> cls r = CompFullyAntiSym \<and>
                frame r = frame s \<and> nid r = nid s \<and> dim r = dim s \<and> sindex r = sindex s \<and>
                comp_dict r = [] \<and> eq r (Number 0) = Inr True \<and>
                (\<forall>ind. check_indices r ind = Inr ind \<longrightarrow> getitem r ind = Inr 0)))"
proof (intro conjI impI)
  from wf have d: "dim s = length (frame s)" by (simp add: wf_store_def)
  from wf have v: "groups_ok (nid s) (sym s)" "groups_ok (nid s) (antisym s)"
    "distinct (concat (sym s) @ concat (antisym s))"
    by (simp_all add: wf_store_def valid_sym_def)
  then have v': "distinct (concat (antisym s) @ concat (sym s))" by auto
  {
    assume g: "g \<in> set (antisym s)"
    with v(2) ab have "a < nid s" "b < nid s" by (auto simp: groups_ok_def list_all_iff)
    with ab(3) have n: "2 \<le> nid s" by linarith
    from wf g have c: "cls s \<noteq> Components" by (auto simp: wf_store_def)
    let ?r = "\<lparr>cls = CompFullySym, frame = frame s, nid = nid s, dim = length (frame s),
                sindex = sindex s, output_formatter = output_formatter s, sym = [[0..<nid s]],
                antisym = [], comp_dict = []\<rparr> :: 'a store"
    have "symmetrize s pos_arg = CompWithSym_symmetrize s pos_arg"
      using c by (cases "cls s") (simp_all add: symmetrize_def)
    also have "\<dots> = Inr ?r"
      using pos not_inside_other_kind[OF v' g ab(4) ab(1)] interfere_two[OF g ab]
        full_init_ok(1)[OF n]
      by (simp add: CompWithSym_symmetrize_def CompFullySym_init_def)
    finally have "symmetrize s pos_arg = Inr ?r" .
    moreover have "comp_dict ?r = []" by simp
    ultimately show "\<exists>r. symmetrize s pos_arg = Inr r \<and> cls r = CompFullySym \<and>
        frame r = frame s \<and> nid r = nid s \<and> dim r = dim s \<and> sindex r = sindex s \<and> comp_dict r = [] \<and>
        eq r (Number 0) = Inr True \<and>
        (\<forall>ind. check_indices r ind = Inr ind \<longrightarrow> getitem r ind = Inr 0)"
      using empty_store_zero(2,3)[of ?r] d by (intro exI[of _ ?r]) simp
  }
  {
    assume g: "g \<in> set (sym s)"
    with v(1) ab have "a < nid s" "b < nid s" by (auto simp: groups_ok_def list_all_iff)
    with ab(3) have n: "2 \<le> nid s" by linarith
    from wf g have c: "cls s \<noteq> Components" by (auto simp: wf_store_def)
    let ?r = "\<lparr>cls = CompFullyAntiSym, frame = frame s, nid = nid s, dim = length (frame s),
                sindex = sindex s, output_formatter = output_formatter s, sym = [],
                antisym = [[0..<nid s]], comp_dict = []\<rparr> :: 'a store"
    have "antisymmetrize s pos_arg = CompWithSym_antisymmetrize s pos_arg"
      using c by (cases "cls s") (simp_all add: antisymmetrize_def)
    also have "\<dots> = Inr ?r"
      using pos not_inside_other_kind[OF v(3) g ab(4) ab(1)] interfere_two[OF g ab]
        full_init_ok(2)[OF n]
      by (simp add: CompWithSym_antisymmetrize_def CompFullyAntiSym_init_def)
    finally have "antisymmetrize s pos_arg = Inr ?r" .
    moreover have "comp_dict ?r = []" by simp
    ultimately show "\<exists>r. antisymmetrize s pos_arg = Inr r \<and> cls r = CompFullyAntiSym \<and>
        frame r = frame s \<and> nid r = nid s \<and> dim r = dim s \<and> sindex r = sindex s \<and> comp_dict r = [] \<and>
        eq r (Number 0) = Inr True \<and>
        (\<forall>ind. check_indices r ind = Inr ind \<longrightarrow> getitem r ind = Inr 0)"
      using empty_store_zero(2,3)[of ?r] d by (intro exI[of _ ?r]) simp
  }
qed


text \<open>
  The store antisymmetric in \<open>(0,1)\<close> with \<^verbatim>\<open>store[0,1] = 3\<close>: its symmetrization over
  \<open>(0,1)\<close> is zero and \<^verbatim>\<open>store[1,0]\<close> is \<open>-3\<close>; and the mirror image for the symmetric
  store.
\<close>

theorem symmetrize_antisymmetrize_orthogonal_witness:
  "wf_store ex_antisym_rat \<and>
   setitem (ex_antisym_rat\<lparr>comp_dict := []\<rparr>) [0, 1] 3 = Inr ex_antisym_rat \<and>
   given_positions ex_antisym_rat (Some [0, 1]) = Inr [0, 1] \<and>
   [0, 1] \<in> set (antisym ex_antisym_rat) \<and>
   (\<exists>r. symmetrize ex_antisym_rat (Some [0, 1]) = Inr r \<and> cls r = CompFullySym \<and>
        comp_dict r = [] \<and> eq r (Number 0) = Inr True \<and> getitem r [0, 1] = Inr 0) \<and>
   getitem ex_antisym_rat [1, 0] = Inr (- 3) \<and>
   wf_store ex_sym_rat \<and>
   given_positions ex_sym_rat None = Inr [0, 1] \<and>
   [0, 1] \<in> set (sym ex_sym_rat) \<and>
   (\<exists>r. antisymmetrize ex_sym_rat None = Inr r \<and> cls r = CompFullyAntiSym \<and>
        comp_dict r = [] \<and> eq r (Number 0) = Inr True \<and> getitem r [0, 1] = Inr 0) \<and>
   getitem ex_sym_rat [1, 0] = Inr 3"
proof -
  have w1: "wf_store ex_antisym_rat"
    by (simp add: wf_store_def valid_sym_def groups_ok_def ex_antisym_rat_def)
  have p1: "given_positions ex_antisym_rat (Some [0, 1]) = Inr [0, 1]"
    by (simp add: given_positions_def ex_antisym_rat_def)
  have g1: "[0, 1] \<in> set (antisym ex_antisym_rat)" by (simp add: ex_antisym_rat_def)
  have w2: "wf_store ex_sym_rat"
    by (simp add: wf_store_def valid_sym_def groups_ok_def ex_sym_rat_def)
  have p2: "given_positions ex_sym_rat None = Inr [0, 1]"
    by (simp add: given_positions_def ex_sym_rat_def upt2)
  have g2: "[0, 1] \<in> set (sym ex_sym_rat)" by (simp add: ex_sym_rat_def)
  have s1: "setitem (ex_antisym_rat\<lparr>comp_dict := []\<rparr>) [0, 1] 3 = Inr ex_antisym_rat"
    by (simp add: ex_antisym_rat_def setitem_def CompWithSym_setitem_def ordered_indices_def
        check_indices_def antisym_loop.simps list_index.simps signature_def inversions.simps
        write_back_def Let_def has_key_def del_key_def)
  have v1: "getitem ex_antisym_rat [1, 0] = Inr (- 3)"
    by (simp add: ex_antisym_rat_def getitem_def CompWithSym_getitem_def ordered_indices_def
        check_indices_def signature_def write_back_def Let_def has_key_def)
  have v2: "getitem ex_sym_rat [1, 0] = Inr 3"
    by (simp add: ex_sym_rat_def getitem_def CompWithSym_getitem_def ordered_indices_def
        check_indices_def signature_def write_back_def sym_step_def Let_def has_key_def)
  from symmetrize_antisymmetrize_orthogonal[OF w1 p1, of 0 1 "[0, 1]"] g1
  obtain r where r: "symmetrize ex_antisym_rat (Some [0, 1]) = Inr r" "cls r = CompFullySym"
    "frame r = frame ex_antisym_rat" "nid r = nid ex_antisym_rat" "dim r = dim ex_antisym_rat"
    "sindex r = sindex ex_antisym_rat"
    "comp_dict r = []" "eq r (Number 0) = Inr True"
    "\<forall>ind. check_indices r ind = Inr ind \<longrightarrow> getitem r ind = Inr 0"
    by auto
  have c1: "check_indices r [0, 1] = Inr [0, 1]"
    using r(3,4,5,6) by (simp add: check_indices_def ex_antisym_rat_def)
  from symmetrize_antisymmetrize_orthogonal[OF w2 p2, of 0 1 "[0, 1]"] g2
  obtain q where q: "antisymmetrize ex_sym_rat None = Inr q" "cls q = CompFullyAntiSym"
    "frame q = frame ex_sym_rat" "nid q = nid ex_sym_rat" "dim q = dim ex_sym_rat"
    "sindex q = sindex ex_sym_rat"
    "comp_dict q = []" "eq q (Number 0) = Inr True"
    "\<forall>ind. check_indices q ind = Inr ind \<longrightarrow> getitem q ind = Inr 0"
    by auto
  have c2: "check_indices q [0, 1] = Inr [0, 1]"
    using q(3,4,5,6) by (simp add: check_indices_def ex_sym_rat_def)
  from r c1 have e1: "\<exists>r. symmetrize ex_antisym_rat (Some [0, 1]) = Inr r \<and> cls r = CompFullySym \<and>
        comp_dict r = [] \<and> eq r (Number 0) = Inr True \<and> getitem r [0, 1] = Inr 0"
    by (intro exI[of _ r]) simp
  from q c2 have e2: "\<exists>r. antisymmetrize ex_sym_rat None = Inr r \<and> cls r = CompFullyAntiSym \<and>
        comp_dict r = [] \<and> eq r (Number 0) = Inr True \<and> getitem r [0, 1] = Inr 0"
    by (intro exI[of _ q]) simp
  from w1 s1 p1 g1 e1 v1 w2 p2 g2 e2 v2 show ?thesis by (intro conjI)
qed

end
